theory Spec2Isabelle
  imports Main "HOL-Library.AList"
begin

section \<open>Strings\<close>

text \<open>
  A JavaScript string is a sequence of UTF-16 code units and \<open>length\<close> counts code units.
  The model works on texts whose code units are below 256 (ISO 8859-1, which covers German
  and English): one \<^typ>\<open>char\<close> is one code unit, so \<^const>\<open>length\<close> is the
  JavaScript \<open>length\<close>. Characters outside ASCII are written by their code.
\<close>

definition ae :: string where "ae = [CHR 0xE4]"
definition oe :: string where "oe = [CHR 0xF6]"
definition ue :: string where "ue = [CHR 0xFC]"
definition nl :: string where "nl = [CHR 0x0A]"

text \<open>
  \<open>String.prototype.toLowerCase\<close> on this range: the letters A to Z and the letters
  from U+00C0 to U+00DE (the multiplication sign U+00D7 apart) move up by 32, every other
  code unit stays.
\<close>

definition isUpperLatin1 :: "char \<Rightarrow> bool" where
  "isUpperLatin1 c =
     (let n = (of_char c :: nat)
      in (65 \<le> n \<and> n \<le> 90) \<or> (192 \<le> n \<and> n \<le> 222 \<and> n \<noteq> 215))"

definition toLowerCase_char :: "char \<Rightarrow> char" where
  "toLowerCase_char c = (if isUpperLatin1 c then char_of ((of_char c :: nat) + 32) else c)"

definition toLowerCase :: "string \<Rightarrow> string" where
  "toLowerCase s = map toLowerCase_char s"

text \<open>\<open>String.prototype.startsWith\<close> and \<open>String.prototype.includes\<close>.\<close>

fun startsWith :: "string \<Rightarrow> string \<Rightarrow> bool" where
  "startsWith s [] = True"
| "startsWith [] (k # ks) = False"
| "startsWith (c # cs) (k # ks) = (c = k \<and> startsWith cs ks)"

fun includes_str :: "string \<Rightarrow> string \<Rightarrow> bool" where
  "includes_str [] k = (k = [])"
| "includes_str (c # cs) k = (startsWith (c # cs) k \<or> includes_str cs k)"

text \<open>
  A regular expression with the flag \<open>i\<close> (and neither \<open>u\<close> nor \<open>g\<close>) that is an
  alternation of literal words: \<open>/w1|w2|.../i.test(s)\<close> holds when some word occurs in
  \<open>s\<close> up to letter case, and \<open>/^(w1|w2|...)/i.test(s)\<close> when \<open>s\<close> begins with
  one. On the code units below 256 the case folding of the flag identifies exactly the
  pairs that \<open>toLowerCase\<close> identifies, and the words of this program are lower case.
\<close>

definition test_any :: "string list \<Rightarrow> string \<Rightarrow> bool" where
  "test_any ws s = list_ex (\<lambda>w. includes_str (toLowerCase s) w) ws"

definition test_prefix_any :: "string list \<Rightarrow> string \<Rightarrow> bool" where
  "test_prefix_any ws s = list_ex (\<lambda>w. startsWith (toLowerCase s) w) ws"

text \<open>The decimal numeral of a number, as a template literal prints it.\<close>

definition digit :: "nat \<Rightarrow> char" where
  "digit n = ''0123456789'' ! n"

fun dec :: "nat \<Rightarrow> string" where
  "dec n = (if n < 10 then [digit n] else dec (n div 10) @ [digit (n mod 10)])"

declare dec.simps [simp del]

section \<open>The chat service\<close>

subsection \<open>Static data\<close>

definition CONCERN_KEYWORDS :: "string list" where
  "CONCERN_KEYWORDS =
    [''missbrauch'', ''geschlagen'', ''angefasst'', ''ber'' @ ue @ ''hrt'', ''gewalt'', ''angst'',
     ''trainer'', ''lehrer'', ''verein'', ''mannschaft'', ''team'', ''schule'',
     ''wehtun'', ''wehtut'', ''weh tut'', ''hilfe'', ''allein'', ''geheimnis'',
     ''nicht sagen'', ''nicht erz'' @ ae @ ''hlen'', ''nicht verraten'', ''droht'',
     ''nicht erlaubt'', ''gezwungen'', ''zwingen'', ''schlecht gef'' @ ue @ ''hl'',
     ''eklig'', ''ekelt'', ''traurig'', ''sexuell'', ''sexual'', ''not allowed'', ''touch'']"

record resource =
  name :: string
  description :: string
  contact :: string

definition EMERGENCY_RESOURCES :: "resource list" where
  "EMERGENCY_RESOURCES =
    [\<lparr>name = ''Nummer gegen Kummer'',
      description = ''Kostenlose Telefon-Beratung f'' @ ue @ ''r Kinder und Jugendliche'',
      contact = ''116 111''\<rparr>,
     \<lparr>name = ''Hilfetelefon Sexueller Missbrauch'',
      description = ''Kostenlose und anonyme Beratung'',
      contact = ''0800 22 55 530''\<rparr>,
     \<lparr>name = ''Kinderschutz-Zentrum'',
      description = ''Hilfe bei Gewalt gegen Kinder'',
      contact = ''In deiner Stadt oder unter www.kinderschutz-zentren.org''\<rparr>]"

text \<open>
  A conversation turn as the presentation layer builds it; the service reads the two
  fields \<open>sender\<close> and \<open>text\<close>.
\<close>

record turn =
  sender :: string
  msg_text :: string

subsection \<open>Safety scanner\<close>

definition containsConcerningContent :: "string \<Rightarrow> bool" where
  "containsConcerningContent txt =
     (let lowerText = toLowerCase txt
      in list_ex (\<lambda>keyword. includes_str lowerText (toLowerCase keyword)) CONCERN_KEYWORDS)"

definition generateSafetyResourcesMessage :: string where
  "generateSafetyResourcesMessage =
     (let message0 =
            ''Es ist sehr wichtig und mutig von dir, dar'' @ ue @ ''ber zu sprechen. '' @
            ''Ich bin immer f'' @ ue @ ''r dich da, aber manchmal ist es auch gut, mit einem Erwachsenen zu reden, dem du vertraust. '' @
            ''Das k'' @ oe @ ''nnten deine Eltern, ein anderer Verwandter, ein Lehrer oder ein Schulberater sein.'' @ nl @ nl @
            ''Hier sind einige Stellen, die dir auch helfen k'' @ oe @ ''nnen:'' @ nl @ nl;
          message1 =
            foldl (\<lambda>message r. message @ ''- **'' @ name r @ ''**: '' @ description r @
                     ''. Du erreichst sie unter '' @ contact r @ nl)
                  message0 EMERGENCY_RESOURCES
      in message1 @ nl @
         ''Du bist nicht allein, und es ist nicht deine Schuld. Es gibt Menschen, die dir helfen k'' @ oe @ ''nnen.'')"

text \<open>\<open>xs.slice(-n)\<close>: the last \<open>n\<close> elements, all of them when there are fewer.\<close>

definition slice_last :: "nat \<Rightarrow> 'a list \<Rightarrow> 'a list" where
  "slice_last n xs = drop (length xs - n) xs"

definition userMessages :: "turn list \<Rightarrow> turn list" where
  "userMessages messages = slice_last 3 (filter (\<lambda>msg. sender msg = ''user'') messages)"

definition hasConcerningPattern :: "turn list \<Rightarrow> bool" where
  "hasConcerningPattern messages =
     (let concernCount =
            foldl (\<lambda>count msg. count + (if containsConcerningContent (msg_text msg) then 1 else 0))
                  (0::nat) (userMessages messages)
      in concernCount \<ge> 2)"

subsection \<open>Response cache\<close>

text \<open>
  A JavaScript \<open>Map\<close> keeps its keys distinct and iterates in insertion order; \<open>set\<close> on
  a key that is present replaces the value where the key stands and \<open>set\<close> on a new key
  appends. It is a list of pairs, oldest first.
\<close>

type_synonym jsmap = "(string \<times> string) list"

definition Map_has :: "jsmap \<Rightarrow> string \<Rightarrow> bool" where
  "Map_has m k = (map_of m k \<noteq> None)"

definition Map_get :: "jsmap \<Rightarrow> string \<Rightarrow> string option" where
  "Map_get m k = map_of m k"

definition Map_set :: "jsmap \<Rightarrow> string \<Rightarrow> string \<Rightarrow> jsmap" where
  "Map_set m k v = AList.update k v m"

definition Map_delete :: "jsmap \<Rightarrow> string \<Rightarrow> jsmap" where
  "Map_delete m k = AList.delete k m"

definition Map_size :: "jsmap \<Rightarrow> nat" where
  "Map_size m = length m"

text \<open>
  \<open>m.delete(m.keys().next().value)\<close>: the first key of an empty map is \<open>undefined\<close>,
  which is no key of the map, and nothing is deleted.
\<close>

definition Map_delete_first :: "jsmap \<Rightarrow> jsmap" where
  "Map_delete_first m = (case m of [] \<Rightarrow> m | (firstKey, _) # _ \<Rightarrow> Map_delete m firstKey)"

definition greeting_reply :: string where
  "greeting_reply =
     ''Hallo! Sch'' @ oe @ ''n, dass du da bist. Wie geht es dir heute? Du kannst mir alles erz'' @ ae @
     ''hlen, was dich besch'' @ ae @ ''ftigt.''"

definition about_reply :: string where
  "about_reply =
     ''Ich bin FreundBot, dein digitaler Freund. Du kannst mit mir '' @ ue @ ''ber alles reden, was dich besch'' @ ae @
     ''ftigt. Ich kann dir zuh'' @ oe @ ''ren, wenn du Sorgen hast oder '' @ ue @
     ''ber deine Erfahrungen sprechen m'' @ oe @ ''chtest. Wenn du Hilfe brauchst, kann ich dir auch sagen, wo du sie bekommen kannst. Wor'' @ ue @
     ''ber m'' @ oe @ ''chtest du sprechen?''"

definition thanks_reply :: string where
  "thanks_reply =
     ''Gerne! Ich freue mich, dass ich dir helfen konnte. Gibt es noch etwas, wor'' @ ue @
     ''ber du sprechen m'' @ oe @ ''chtest?''"

definition farewell_reply :: string where
  "farewell_reply =
     ''Tsch'' @ ue @ ''ss! Es hat mich gefreut, mit dir zu sprechen. Komm jederzeit wieder, wenn du reden m'' @ oe @
     ''chtest. Pass gut auf dich auf!''"

text \<open>Each entry is the test of its regular expression and the canned reply.\<close>

definition COMMON_PATTERNS :: "((string \<Rightarrow> bool) \<times> string) list" where
  "COMMON_PATTERNS =
    [(test_prefix_any [''hallo'', ''hi'', ''hey'', ''guten tag'', ''servus'', ''moin''], greeting_reply),
     (test_any [''was kannst du'', ''wof'' @ ue @ ''r bist du'', ''wie funktionierst du''], about_reply),
     (test_any [''danke'', ''dankesch'' @ oe @ ''n'', ''vielen dank''], thanks_reply),
     (test_any [''tsch'' @ ue @ ''ss'', ''auf wiedersehen'', ''bis sp'' @ ae @ ''ter'', ''bye'', ''ciao''],
      farewell_reply)]"

fun first_pattern :: "((string \<Rightarrow> bool) \<times> string) list \<Rightarrow> string \<Rightarrow> string option" where
  "first_pattern [] input = None"
| "first_pattern (item # items) input =
     (if fst item input then Some (snd item) else first_pattern items input)"

definition getCachedResponse :: "jsmap \<Rightarrow> string \<Rightarrow> string option" where
  "getCachedResponse responseCache input =
     (if Map_has responseCache (toLowerCase input)
      then Map_get responseCache (toLowerCase input)
      else first_pattern COMMON_PATTERNS input)"

definition cacheResponse :: "jsmap \<Rightarrow> string \<Rightarrow> string \<Rightarrow> jsmap" where
  "cacheResponse responseCache input response =
     (if length input > 3 \<and> length input < 100 \<and> \<not> containsConcerningContent input
      then (let c1 = Map_set responseCache (toLowerCase input) response
            in if Map_size c1 > 100 then Map_delete_first c1 else c1)
      else responseCache)"

subsection \<open>The remote call as the service sees it\<close>

text \<open>
  What \<open>Promise.race([responsePromise, timeoutPromise])\<close> can settle with is decided
  outside the service, so it is an input of the model: the 15 second timer fires first,
  or \<open>fetch\<close> rejects with an error of the given message, or a response arrives with a
  status and a body. The body either fails to parse as JSON (with the parser's message)
  or parses to a value, of which the service reads the fields \<open>response\<close> and
  \<open>error\<close>.
\<close>

datatype json_value = JNull | JObject (response_field: "string option") (error_field: "string option")

datatype body = BadJson string | GoodJson json_value

datatype fetch_outcome = TimerFirst | FetchRejected string | Responded nat body

definition ok :: "nat \<Rightarrow> bool" where
  "ok status = (200 \<le> status \<and> status \<le> 299)"

text \<open>
  The \<open>then\<close> callback on the response. For status 500 the error thrown from the inner
  \<open>then\<close> is itself caught by the \<open>catch\<close> chained behind it, as a parse failure is.
\<close>

definition responsePromise :: "nat \<Rightarrow> body \<Rightarrow> string + json_value" where
  "responsePromise status b =
     (if \<not> ok status then
        (if status = 500 then
           (let thrown =
                  (case b of
                     BadJson m \<Rightarrow> m
                   | GoodJson JNull \<Rightarrow> ''Cannot read properties of null''
                   | GoodJson (JObject r e) \<Rightarrow>
                       ''Server-Fehler: '' @
                       (case e of Some s \<Rightarrow> if s \<noteq> [] then s else ''Unbekannter Fehler''
                        | None \<Rightarrow> ''Unbekannter Fehler''))
            in Inl (''HTTP error! status: '' @ dec status @ '' - Serverfehler''))
         else Inl (''HTTP error! status: '' @ dec status))
      else (case b of BadJson m \<Rightarrow> Inl m | GoodJson v \<Rightarrow> Inr v))"

definition race :: "fetch_outcome \<Rightarrow> string + json_value" where
  "race outcome =
     (case outcome of
        TimerFirst \<Rightarrow> Inl ''Request timeout''
      | FetchRejected m \<Rightarrow> Inl m
      | Responded status b \<Rightarrow> responsePromise status b)"

subsection \<open>Fallback sentences\<close>

definition timeout_reply :: string where
  "timeout_reply =
     ''Es tut mir leid, aber ich brauche gerade etwas l'' @ ae @ ''nger f'' @ ue @
     ''r die Antwort. Kannst du deine Frage vielleicht etwas anders stellen?''"

definition network_reply :: string where
  "network_reply =
     ''Es scheint ein Problem mit der Internetverbindung zu geben. Bitte pr'' @ ue @
     ''fe deine Verbindung und versuche es noch einmal.''"

definition apikey_reply :: string where
  "apikey_reply =
     ''Es tut mir leid, ich habe ein Problem mit meiner API-Verbindung. Ein Erwachsener sollte den API-Schl'' @ ue @
     ''ssel in den Umgebungsvariablen '' @ ue @ ''berpr'' @ ue @ ''fen.''"

definition model_reply :: string where
  "model_reply =
     ''Es tut mir leid, ich habe ein Problem mit meinem Sprachmodell. Ein Erwachsener sollte die Konfiguration '' @ ue @
     ''berpr'' @ ue @ ''fen.''"

definition server_reply :: string where
  "server_reply =
     ''Es tut mir leid, der Server hat ein Problem. Ein Erwachsener sollte die Serverlogs '' @ ue @
     ''berpr'' @ ue @ ''fen.''"

definition gateway_reply :: string where
  "gateway_reply =
     ''Es tut mir leid, es gibt ein Problem mit der Verbindung zum API-Server. Dies k'' @ oe @
     ''nnte ein vor'' @ ue @ ''bergehendes Problem sein. Bitte versuche es in einigen Minuten erneut.''"

definition fallbackResponses :: "string list" where
  "fallbackResponses =
    [''Entschuldige, ich habe gerade ein Problem. Kannst du das bitte noch einmal sagen?'',
     ''Ich verstehe dich leider gerade nicht so gut. Magst du es anders ausdr'' @ ue @ ''cken?'',
     ''Es tut mir leid, aber ich kann gerade nicht richtig antworten. Lass uns in ein paar Minuten noch einmal versuchen zu sprechen.'',
     ''Ich habe gerade technische Schwierigkeiten. Kannst du mir helfen und deine Nachricht noch einmal senden?'']"

subsection \<open>Response resolution\<close>

text \<open>
  The \<open>catch\<close> block of \<open>generateBotResponse\<close>, on the message of the error caught.
  \<open>rnd\<close> is the value of \<open>Math.floor(Math.random() * fallbackResponses.length)\<close>, a
  number below 4.
\<close>

definition catch_block :: "string \<Rightarrow> nat \<Rightarrow> string" where
  "catch_block message rnd =
     (if message = ''Request timeout'' then timeout_reply
      else if includes_str message ''Failed to fetch'' \<or> includes_str message ''NetworkError''
        then network_reply
      else if includes_str message (''API-Schl'' @ ue @ ''ssel'') \<or> includes_str message ''API key'' \<or>
              includes_str message ''Authentifizierungsfehler''
        then apikey_reply
      else if includes_str message ''Modellfehler'' \<or> includes_str message ''model''
        then model_reply
      else if includes_str message ''Server-Fehler'' \<or> includes_str message ''500''
        then server_reply
      else if includes_str message ''502''
        then gateway_reply
      else fallbackResponses ! rnd)"

text \<open>
  The \<open>try\<close> block: the request is sent, the race is awaited, and a result with a truthy
  \<open>response\<close> is stored and returned. \<open>Inl\<close> carries the message of the error thrown.
\<close>

definition try_block :: "jsmap \<Rightarrow> string \<Rightarrow> fetch_outcome \<Rightarrow> string + (string \<times> jsmap)" where
  "try_block responseCache userInput outcome =
     (case race outcome of
        Inl message \<Rightarrow> Inl message
      | Inr result \<Rightarrow>
          (case result of
             JObject (Some r) e \<Rightarrow>
               if r \<noteq> [] then Inr (r, cacheResponse responseCache userInput r)
               else Inl ''Empty response received''
           | _ \<Rightarrow> Inl ''Empty response received''))"

text \<open>
  One resolution: the reply, the cache afterwards, and the requests posted to
  \<open>/api/chat\<close> (the message and the last five turns).
\<close>

record resolution =
  reply :: string
  cache :: jsmap
  requests :: "(string \<times> turn list) list"

definition generateBotResponse ::
  "jsmap \<Rightarrow> string \<Rightarrow> turn list \<Rightarrow> fetch_outcome \<Rightarrow> nat \<Rightarrow> resolution" where
  "generateBotResponse responseCache userInput messageHistory outcome rnd =
     (let isCurrentMessageConcerning = containsConcerningContent userInput;
          hasConcernPattern = hasConcerningPattern messageHistory
      in if isCurrentMessageConcerning \<or> hasConcernPattern
         then \<lparr>reply = generateSafetyResourcesMessage, cache = responseCache, requests = []\<rparr>
         else (let cachedResponse = getCachedResponse responseCache userInput
               in if cachedResponse \<noteq> None \<and> cachedResponse \<noteq> Some []
                  then \<lparr>reply = the cachedResponse, cache = responseCache, requests = []\<rparr>
                  else (let request = (userInput, slice_last 5 messageHistory)
                        in case try_block responseCache userInput outcome of
                             Inr (response, c) \<Rightarrow>
                               \<lparr>reply = response, cache = c, requests = [request]\<rparr>
                           | Inl message \<Rightarrow>
                               \<lparr>reply = catch_block message rnd, cache = responseCache,
                                requests = [request]\<rparr>)))"

text \<open>
  The sentences the \<open>catch\<close> block can return, and the errors for which it has a
  sentence of their own (the conditions of its \<open>if\<close> statements, taken together).
\<close>

definition error_replies :: "string list" where
  "error_replies =
     [timeout_reply, network_reply, apikey_reply, model_reply, server_reply, gateway_reply]
     @ fallbackResponses"

definition classified :: "string \<Rightarrow> bool" where
  "classified message =
     (message = ''Request timeout'' \<or>
      includes_str message ''Failed to fetch'' \<or> includes_str message ''NetworkError'' \<or>
      includes_str message (''API-Schl'' @ ue @ ''ssel'') \<or> includes_str message ''API key'' \<or>
      includes_str message ''Authentifizierungsfehler'' \<or>
      includes_str message ''Modellfehler'' \<or> includes_str message ''model'' \<or>
      includes_str message ''Server-Fehler'' \<or> includes_str message ''500'' \<or>
      includes_str message ''502'')"

section \<open>The API route\<close>

text \<open>
  The repository holds two versions of the route handler: \<open>pages/api/chat.js\<close> and an
  unnamed file. Both keep a module-level \<open>Map\<close> of their own. The request, the
  credential of the environment and the outcome of the call to the completion service
  are inputs of the model.
\<close>

record request =
  req_method :: string
  req_message :: "string option"
  req_messageHistory :: "turn list option"

text \<open>
  What the handler reads of an error thrown by the HTTP client: \<open>name\<close>, \<open>code\<close>,
  \<open>message\<close>, and of \<open>response\<close> the status and the fields \<open>data.error.type\<close> and
  \<open>data.error.message\<close>.
\<close>

record error_response =
  status :: nat
  data_error_type :: "string option"
  data_error_message :: "string option"

record js_error =
  err_name :: string
  err_code :: "string option"
  err_message :: string
  err_response :: "error_response option"

text \<open>
  The call resolves with a body whose \<open>choices[0].message.content\<close> is a string, or
  resolves with a body that has no such string (reading it throws a \<open>TypeError\<close> with
  the given message), or rejects.
\<close>

datatype axios_outcome = Replied string | Malformed string | Failed js_error

datatype reply_body = ErrorBody string | ResponseBody string string

text \<open>
  The handler either sends a status and a JSON body, \<open>{error}\<close> or
  \<open>{response, source}\<close>, or throws.
\<close>

datatype handler_result = Sent nat reply_body | Threw string

definition Error :: "string \<Rightarrow> js_error" where
  "Error m = \<lparr>err_name = ''Error'', err_code = None, err_message = m, err_response = None\<rparr>"

definition TypeError :: "string \<Rightarrow> js_error" where
  "TypeError m = \<lparr>err_name = ''TypeError'', err_code = None, err_message = m, err_response = None\<rparr>"

text \<open>
  \<open>!key || key.trim() === ''\<close>: the variable is unset, empty, or white space only.
\<close>

definition isWhiteSpace :: "char \<Rightarrow> bool" where
  "isWhiteSpace c = ((of_char c :: nat) \<in> {9, 10, 11, 12, 13, 32, 160})"

definition missingKey :: "string option \<Rightarrow> bool" where
  "missingKey apiKey = (case apiKey of None \<Rightarrow> True | Some k \<Rightarrow> list_all isWhiteSpace k)"

subsection \<open>Output filter\<close>

text \<open>
  \<open>/sex(?!ual violence|ual abuse|ual harassment)/i\<close>: some occurrence of \<open>sex\<close>, up to
  letter case, that none of the three continuations follows.
\<close>

fun sex_match :: "string \<Rightarrow> bool" where
  "sex_match [] = False"
| "sex_match (c # cs) =
     ((startsWith (c # cs) ''sex'' \<and>
       \<not> list_ex (startsWith (drop 3 (c # cs))) [''ual violence'', ''ual abuse'', ''ual harassment''])
      \<or> sex_match cs)"

definition test_sex :: "string \<Rightarrow> bool" where
  "test_sex s = sex_match (toLowerCase s)"

definition unsafePatterns :: "(string \<Rightarrow> bool) list" where
  "unsafePatterns =
    [test_sex,
     test_any [''porn''],
     test_any [''explicit''],
     test_any [''adult content''],
     test_any [''nicht f'' @ ue @ ''r kinder''],
     test_any [''not appropriate for children''],
     test_any [''kill yourself''],
     test_any [''self-harm''],
     test_any [''suicide'']]"

definition isSafeResponse :: "string \<Rightarrow> bool" where
  "isSafeResponse txt = (\<not> list_ex (\<lambda>pattern. pattern txt) unsafePatterns)"

subsection \<open>Sentences of the route\<close>

definition safeResponse :: string where
  "safeResponse =
     ''Es tut mir leid, ich kann auf diese Frage nicht antworten. Lass uns '' @ ue @
     ''ber etwas anderes sprechen. Wie war dein Tag heute?''"

definition route_timeout_reply :: string where
  "route_timeout_reply =
     ''Es tut mir leid, ich brauche etwas l'' @ ae @ ''nger zum Nachdenken. K'' @ oe @
     ''nntest du deine Frage vielleicht etwas einfacher stellen?''"

definition technical_reply :: string where
  "technical_reply =
     ''Es tut mir leid, ich habe gerade ein technisches Problem. Kannst du es in ein paar Minuten noch einmal versuchen?''"

definition route_network_reply :: string where
  "route_network_reply =
     ''Es scheint ein Netzwerkproblem zu geben. Bist du mit dem Internet verbunden?''"

subsection \<open>Shared steps\<close>

definition cacheKey :: "string \<Rightarrow> turn list option \<Rightarrow> string" where
  "cacheKey msg history =
     msg @ '':'' @ dec (case history of Some h \<Rightarrow> length h | None \<Rightarrow> 0)"

text \<open>
  The inner \<open>catch\<close>, the same in both versions; \<open>rethrow\<close> is the outer \<open>catch\<close> that
  receives what the inner one throws again.
\<close>

definition inner_catch :: "(js_error \<Rightarrow> handler_result) \<Rightarrow> js_error \<Rightarrow> handler_result" where
  "inner_catch rethrow axiosError =
     (if err_name axiosError = ''AbortError'' \<or> err_code axiosError = Some ''ECONNABORTED''
      then Sent 200 (ResponseBody route_timeout_reply ''timeout'')
      else if (case err_response axiosError of Some r \<Rightarrow> status r = 401 | None \<Rightarrow> False)
      then Sent 200 (ResponseBody apikey_reply ''auth_error'')
      else rethrow axiosError)"

text \<open>The steps after a reply text has arrived, the same in both versions.\<close>

definition on_reply :: "jsmap \<Rightarrow> string \<Rightarrow> string \<Rightarrow> handler_result \<times> jsmap" where
  "on_reply responseCache key botResponse =
     (if isSafeResponse botResponse
      then (let c1 = Map_set responseCache key botResponse
            in (Sent 200 (ResponseBody botResponse ''api''),
                if Map_size c1 > 100 then Map_delete_first c1 else c1))
      else (Sent 200 (ResponseBody safeResponse ''fallback''),
            Map_set responseCache key safeResponse))"

subsection \<open>The unnamed version\<close>

definition outer_catch0 :: "js_error \<Rightarrow> handler_result" where
  "outer_catch0 error =
     (let errorResponse =
            (if includes_str (err_message error) ''API key'' then apikey_reply
             else if includes_str (err_message error) ''network'' then route_network_reply
             else technical_reply)
      in Sent 200 (ResponseBody errorResponse ''error''))"

definition handler0 ::
  "string option \<Rightarrow> jsmap \<Rightarrow> request \<Rightarrow> axios_outcome \<Rightarrow> handler_result \<times> jsmap" where
  "handler0 apiKey responseCache req outcome =
     (if req_method req \<noteq> ''POST''
      then (Sent 405 (ErrorBody ''Method not allowed''), responseCache)
      else (case req_message req of
              None \<Rightarrow> (Sent 400 (ErrorBody ''Message is required''), responseCache)
            | Some msg \<Rightarrow>
                if msg = [] then (Sent 400 (ErrorBody ''Message is required''), responseCache)
                else (let key = cacheKey msg (req_messageHistory req)
                      in case Map_get responseCache key of
                           Some cached \<Rightarrow> (Sent 200 (ResponseBody cached ''cache''), responseCache)
                         | None \<Rightarrow>
                             if missingKey apiKey
                             then (inner_catch outer_catch0 (Error ''Missing API key''), responseCache)
                             else (case outcome of
                                     Replied botResponse \<Rightarrow> on_reply responseCache key botResponse
                                   | Malformed m \<Rightarrow>
                                       (inner_catch outer_catch0 (TypeError m), responseCache)
                                   | Failed e \<Rightarrow> (inner_catch outer_catch0 e, responseCache)))))"

subsection \<open>The version of \<open>pages/api/chat.js\<close>\<close>

text \<open>\<open>handleApiRequest\<close> replaces two kinds of error and throws the others as they are.\<close>

definition handleApiRequest :: "axios_outcome \<Rightarrow> axios_outcome" where
  "handleApiRequest outcome =
     (case outcome of
        Failed error \<Rightarrow>
          (if (case err_response error of Some r \<Rightarrow> status r = 401 \<or> status r = 403 | None \<Rightarrow> False)
           then Failed (Error (''API-Authentifizierungsfehler: Bitte '' @ ue @ ''berpr'' @ ue @
                               ''fen Sie den API-Schl'' @ ue @ ''ssel''))
           else if (case err_response error of
                      Some r \<Rightarrow> data_error_type r = Some ''invalid_request_error'' \<and>
                                (case data_error_message r of Some m \<Rightarrow> includes_str m ''model''
                                 | None \<Rightarrow> False)
                    | None \<Rightarrow> False)
           then Failed (Error (''API-Modellfehler: Bitte '' @ ue @ ''berpr'' @ ue @
                               ''fen Sie den Modellnamen''))
           else Failed error)
      | _ \<Rightarrow> outcome)"

text \<open>
  The outer \<open>catch\<close> of this version begins with \<open>clearTimeout(timeoutId)\<close>, and
  \<open>timeoutId\<close> is a \<open>const\<close> of the \<open>try\<close> block: the name is not in scope in the
  \<open>catch\<close> block, reading it throws a \<open>ReferenceError\<close>, and the statements behind it,
  which choose a sentence and send status 500, do not run.
\<close>

definition outer_catch :: "js_error \<Rightarrow> handler_result" where
  "outer_catch error = Threw ''timeoutId is not defined''"

definition handler ::
  "string option \<Rightarrow> jsmap \<Rightarrow> request \<Rightarrow> axios_outcome \<Rightarrow> handler_result \<times> jsmap" where
  "handler apiKey responseCache req outcome =
     (if req_method req \<noteq> ''POST''
      then (Sent 405 (ErrorBody ''Method not allowed''), responseCache)
      else (case req_message req of
              None \<Rightarrow> (Sent 400 (ErrorBody ''Message is required''), responseCache)
            | Some msg \<Rightarrow>
                if msg = [] then (Sent 400 (ErrorBody ''Message is required''), responseCache)
                else (let key = cacheKey msg (req_messageHistory req)
                      in case Map_get responseCache key of
                           Some cached \<Rightarrow> (Sent 200 (ResponseBody cached ''cache''), responseCache)
                         | None \<Rightarrow>
                             if missingKey apiKey
                             then (inner_catch outer_catch (Error ''Missing API key''), responseCache)
                             else (case handleApiRequest outcome of
                                     Replied botResponse \<Rightarrow> on_reply responseCache key botResponse
                                   | Malformed m \<Rightarrow>
                                       (inner_catch outer_catch (TypeError m), responseCache)
                                   | Failed e \<Rightarrow> (inner_catch outer_catch e, responseCache)))))"

section \<open>Occurrences of a word\<close>

text \<open>
  Every occurrence of the word \<open>w\<close> in \<open>s\<close> is followed by \<open>k\<close>; the words other
  than \<open>sex\<close> that the output filter blocks.
\<close>

fun occurrences_followed :: "string \<Rightarrow> string \<Rightarrow> string \<Rightarrow> bool" where
  "occurrences_followed w k [] = True"
| "occurrences_followed w k (c # cs) =
     ((\<not> startsWith (c # cs) w \<or> startsWith (drop (length w) (c # cs)) k) \<and>
      occurrences_followed w k cs)"

definition blocked_words :: "string list" where
  "blocked_words =
     [''porn'', ''explicit'', ''adult content'', ''nicht f'' @ ue @ ''r kinder'',
      ''not appropriate for children'', ''kill yourself'', ''self-harm'', ''suicide'']"

section \<open>Sequences of operations\<close>

text \<open>
  The cache of the service is written by \<open>cacheResponse\<close> only, and
  \<open>generateBotResponse\<close> is its one caller. A run applies stores and resolutions one after
  the other, each on the cache the one before has left.
\<close>

datatype service_op = Store string string | Resolve string "turn list" fetch_outcome nat

fun service_step :: "jsmap \<Rightarrow> service_op \<Rightarrow> jsmap" where
  "service_step c (Store input response) = cacheResponse c input response"
| "service_step c (Resolve userInput history outcome rnd) =
     cache (generateBotResponse c userInput history outcome rnd)"

definition service_run :: "jsmap \<Rightarrow> service_op list \<Rightarrow> jsmap" where
  "service_run c ops = foldl service_step c ops"

text \<open>What every key of the cache satisfies once it has been admitted.\<close>

definition admitted_keys :: "jsmap \<Rightarrow> bool" where
  "admitted_keys c =
     (\<forall>(k, v) \<in> set c. 3 < length k \<and> length k < 100 \<and> \<not> containsConcerningContent k \<and>
        toLowerCase k = k)"

section \<open>Example inputs\<close>

definition full_cache :: jsmap where
  "full_cache =
     map (\<lambda>(x, y). (''frage '' @ [x, y], ''antwort''))
         (List.product ''abcdefghij'' ''abcdefghij'')"

definition stale_cache :: jsmap where
  "stale_cache = [(''ich habe angst'', ''Das klingt spannend!'')]"

definition reply_vier :: fetch_outcome where
  "reply_vier = Responded 200 (GoodJson (JObject (Some ''vier'') None))"

definition empty_reply :: fetch_outcome where
  "empty_reply = Responded 200 (GoodJson JNull)"

definition post_angst :: request where
  "post_angst =
     \<lparr>req_method = ''POST'', req_message = Some ''Ich habe Angst'', req_messageHistory = Some []\<rparr>"

definition abort_error :: js_error where
  "abort_error =
     \<lparr>err_name = ''AbortError'', err_code = None, err_message = ''The operation was aborted'',
      err_response = None\<rparr>"

definition post_frage :: request where
  "post_frage =
     \<lparr>req_method = ''POST'', req_message = Some ''Was ist das?'', req_messageHistory = Some []\<rparr>"

definition carve_text :: string where
  "carve_text = ''Sexual abuse is never your fault.''"

definition post_angst_again :: request where
  "post_angst_again =
     \<lparr>req_method = ''POST'', req_message = Some ''Ich habe Angst'', req_messageHistory = None\<rparr>"

definition small_run :: "service_op list" where
  "small_run =
     [Store ''Wie geht es'' ''gut'',
      Store ''Ich habe Angst'' ''nein'',
      Store ''abc'' ''kurz'',
      Resolve ''Was ist 2+2'' [] (Responded 200 (GoodJson (JObject (Some ''vier'') None))) 0]"


definition w_earlier :: "turn list" where
  "w_earlier = [\<lparr>sender = ''user'', msg_text = ''Mein Trainer''\<rparr>,
                \<lparr>sender = ''user'', msg_text = ''Ich habe Angst''\<rparr>]"

definition w_recent :: "turn list" where
  "w_recent = [\<lparr>sender = ''user'', msg_text = ''eins''\<rparr>,
               \<lparr>sender = ''bot'', msg_text = ''ja''\<rparr>,
               \<lparr>sender = ''user'', msg_text = ''zwei''\<rparr>,
               \<lparr>sender = ''user'', msg_text = ''drei''\<rparr>]"

section \<open>Properties of strings\<close>

lemma toLowerCase_char_Char:
  "toLowerCase_char (Char b0 b1 b2 b3 b4 b5 b6 b7) =
     (if isUpperLatin1 (Char b0 b1 b2 b3 b4 b5 b6 b7) then Char b0 b1 b2 b3 b4 True b6 b7
      else Char b0 b1 b2 b3 b4 b5 b6 b7)"
  unfolding toLowerCase_char_def isUpperLatin1_def Let_def
  by (cases b0; cases b1; cases b2; cases b3; cases b4; cases b5; cases b6; cases b7;
      simp add: char_of_eq_iff)

lemmas text_defs =
  toLowerCase_def toLowerCase_char_Char isUpperLatin1_def ae_def oe_def ue_def nl_def

lemma startsWith_iff: "startsWith s k \<longleftrightarrow> (\<exists>v. s = k @ v)"
  by (induction s k rule: startsWith.induct) auto

lemma includes_str_iff: "includes_str s k \<longleftrightarrow> (\<exists>u v. s = u @ k @ v)"
proof (induction s)
  case Nil
  then show ?case by simp
next
  case (Cons c cs)
  show ?case
  proof
    assume "includes_str (c # cs) k"
    then consider "startsWith (c # cs) k" | "includes_str cs k" by auto
    then show "\<exists>u v. c # cs = u @ k @ v"
    proof cases
      case 1
      then obtain v where "c # cs = k @ v" by (auto simp: startsWith_iff)
      then have "c # cs = [] @ k @ v" by simp
      then show ?thesis by blast
    next
      case 2
      then obtain u v where "cs = u @ k @ v" using Cons.IH by auto
      then have "c # cs = (c # u) @ k @ v" by simp
      then show ?thesis by blast
    qed
  next
    assume "\<exists>u v. c # cs = u @ k @ v"
    then obtain u v where uv: "c # cs = u @ k @ v" by blast
    show "includes_str (c # cs) k"
    proof (cases u)
      case Nil
      with uv have "startsWith (c # cs) k" by (auto simp: startsWith_iff)
      then show ?thesis by simp
    next
      case (Cons a u')
      with uv have "cs = u' @ k @ v" by simp
      then have "includes_str cs k" using Cons.IH by blast
      then show ?thesis by simp
    qed
  qed
qed

lemma toLowerCase_char_idem: "toLowerCase_char (toLowerCase_char c) = toLowerCase_char c"
  unfolding toLowerCase_char_def isUpperLatin1_def Let_def by auto

lemma toLowerCase_idem: "toLowerCase (toLowerCase s) = toLowerCase s"
  by (simp add: toLowerCase_def toLowerCase_char_idem)

lemma length_toLowerCase: "length (toLowerCase s) = length s"
  by (simp add: toLowerCase_def)

section \<open>Properties of the safety scanner\<close>

lemma keywords_lower: "map toLowerCase CONCERN_KEYWORDS = CONCERN_KEYWORDS"
  by (simp add: CONCERN_KEYWORDS_def text_defs)

lemma concerning_eval:
  "containsConcerningContent txt = list_ex (includes_str (toLowerCase txt)) CONCERN_KEYWORDS"
proof -
  have "list_ex (\<lambda>keyword. includes_str (toLowerCase txt) (toLowerCase keyword)) CONCERN_KEYWORDS
      = list_ex (includes_str (toLowerCase txt)) (map toLowerCase CONCERN_KEYWORDS)"
    by (simp add: list_ex_iff)
  then show ?thesis by (simp add: containsConcerningContent_def keywords_lower)
qed

lemmas scan_defs = concerning_eval CONCERN_KEYWORDS_def text_defs

lemma concerning_toLowerCase:
  "containsConcerningContent (toLowerCase s) = containsConcerningContent s"
  by (simp add: containsConcerningContent_def toLowerCase_idem)

lemma concerning_iff:
  "containsConcerningContent s \<longleftrightarrow>
     (\<exists>keyword \<in> set CONCERN_KEYWORDS. \<exists>u v. toLowerCase s = u @ toLowerCase keyword @ v)"
  by (simp add: containsConcerningContent_def list_ex_iff includes_str_iff)

lemma count_foldl:
  "foldl (\<lambda>count x. count + (if P x then 1 else 0)) (a::nat) xs = a + length (filter P xs)"
  by (induction xs arbitrary: a) auto

lemma slice_last_append: "n \<le> length ys \<Longrightarrow> slice_last n (xs @ ys) = slice_last n ys"
  by (simp add: slice_last_def)

lemma hasConcerningPattern_count:
  "hasConcerningPattern messages \<longleftrightarrow>
     2 \<le> length (filter (\<lambda>msg. containsConcerningContent (msg_text msg)) (userMessages messages))"
  by (simp add: hasConcerningPattern_def count_foldl)

lemma userMessages_append:
  assumes "3 \<le> length (filter (\<lambda>msg. sender msg = ''user'') messages)"
  shows "userMessages (earlier @ messages) = userMessages messages"
  using assms by (simp add: userMessages_def slice_last_append)

text \<open>
  C3. \<open>hasConcerningPattern\<close> looks at the last three user turns only: it holds exactly
  when at least two of them are concerning on their own; it fails when none of them is,
  whatever came before; and with three user turns in the window, turns put in front of
  the window do not change the answer.
\<close>

theorem hasConcerningPattern_last_three:
  "(hasConcerningPattern messages \<longleftrightarrow>
      2 \<le> length (filter (\<lambda>msg. containsConcerningContent (msg_text msg)) (userMessages messages)))
   \<and> ((\<forall>msg \<in> set (userMessages messages). \<not> containsConcerningContent (msg_text msg))
        \<longrightarrow> \<not> hasConcerningPattern messages)
   \<and> (3 \<le> length (filter (\<lambda>msg. sender msg = ''user'') messages)
        \<longrightarrow> hasConcerningPattern (earlier @ messages) = hasConcerningPattern messages)"
proof (intro conjI impI)
  show "hasConcerningPattern messages \<longleftrightarrow>
      2 \<le> length (filter (\<lambda>msg. containsConcerningContent (msg_text msg)) (userMessages messages))"
    by (rule hasConcerningPattern_count)
next
  assume "\<forall>msg \<in> set (userMessages messages). \<not> containsConcerningContent (msg_text msg)"
  then have "filter (\<lambda>msg. containsConcerningContent (msg_text msg)) (userMessages messages) = []"
    by (simp add: filter_empty_conv)
  then show "\<not> hasConcerningPattern messages"
    by (simp add: hasConcerningPattern_count)
next
  assume "3 \<le> length (filter (\<lambda>msg. sender msg = ''user'') messages)"
  then show "hasConcerningPattern (earlier @ messages) = hasConcerningPattern messages"
    by (simp add: hasConcerningPattern_count userMessages_append)
qed

theorem hasConcerningPattern_last_three_witness:
  "hasConcerningPattern w_earlier
   \<and> map msg_text (userMessages w_recent) = [''eins'', ''zwei'', ''drei'']
   \<and> \<not> containsConcerningContent ''eins''
   \<and> \<not> containsConcerningContent ''zwei''
   \<and> \<not> containsConcerningContent ''drei''
   \<and> 3 \<le> length (filter (\<lambda>msg. sender msg = ''user'') w_recent)
   \<and> \<not> hasConcerningPattern w_recent
   \<and> \<not> hasConcerningPattern (w_earlier @ w_recent)"
  (is "?early \<and> ?recent \<and> ?c1 \<and> ?c2 \<and> ?c3 \<and> ?three \<and> ?res1 \<and> ?res2")
proof -
  have early: ?early
    by (simp add: hasConcerningPattern_count userMessages_def slice_last_def w_earlier_def scan_defs)
  have recent: ?recent
    by (simp add: userMessages_def slice_last_def w_recent_def)
  have c1: ?c1 and c2: ?c2 and c3: ?c3
    by (simp_all add: scan_defs)
  have three: ?three
    by (simp add: w_recent_def)
  have clean: "\<forall>msg \<in> set (userMessages w_recent). \<not> containsConcerningContent (msg_text msg)"
  proof
    fix msg assume "msg \<in> set (userMessages w_recent)"
    then have "msg_text msg \<in> set (map msg_text (userMessages w_recent))" by simp
    with recent c1 c2 c3 show "\<not> containsConcerningContent (msg_text msg)" by auto
  qed
  from hasConcerningPattern_last_three [of w_recent w_earlier] clean three
  have ?res1 and ?res2 by blast+
  with early recent c1 c2 c3 three show ?thesis by blast
qed

section \<open>Properties of the response cache\<close>

lemma update_fresh: "k \<notin> fst ` set c \<Longrightarrow> AList.update k v c = c @ [(k, v)]"
  by (induction c) auto

lemma length_update_le: "length (AList.update k v c) \<le> Suc (length c)"
  by (induction c) auto

lemma length_delete_first: "c \<noteq> [] \<Longrightarrow> length (Map_delete_first c) < length c"
proof (cases c)
  case Nil
  assume "c \<noteq> []" with Nil show ?thesis by simp
next
  case (Cons p ps)
  obtain k v where p: "p = (k, v)" by (cases p)
  have "length (AList.delete k ps) \<le> length ps" by (rule length_delete_le)
  with Cons p show ?thesis by (simp add: Map_delete_first_def Map_delete_def)
qed

lemma set_delete_first: "set (Map_delete_first c) \<subseteq> set c"
  by (cases c) (auto simp: Map_delete_first_def Map_delete_def AList.delete_eq split: prod.splits)

lemma distinct_delete_first: "distinct (map fst c) \<Longrightarrow> distinct (map fst (Map_delete_first c))"
  by (cases c) (auto simp: Map_delete_first_def Map_delete_def distinct_delete split: prod.splits)

lemma cacheResponse_rejected:
  "\<not> (3 < length input \<and> length input < 100 \<and> \<not> containsConcerningContent input)
     \<Longrightarrow> cacheResponse c input response = c"
  by (auto simp: cacheResponse_def)

lemma length_cacheResponse:
  assumes "length c \<le> 100"
  shows "length (cacheResponse c input response) \<le> 100"
proof -
  let ?c1 = "AList.update (toLowerCase input) response c"
  have le: "length ?c1 \<le> Suc (length c)" by (rule length_update_le)
  have "100 < length ?c1 \<Longrightarrow> length (Map_delete_first ?c1) \<le> 100"
  proof -
    assume "100 < length ?c1"
    have "?c1 \<noteq> []" by simp
    then have "length (Map_delete_first ?c1) < length ?c1" by (rule length_delete_first)
    with le assms show ?thesis by simp
  qed
  with assms show ?thesis
    by (auto simp: cacheResponse_def Map_set_def Map_size_def Let_def)
qed

lemma distinct_cacheResponse:
  "distinct (map fst c) \<Longrightarrow> distinct (map fst (cacheResponse c input response))"
  by (auto simp: cacheResponse_def Map_set_def Let_def distinct_update distinct_delete_first)

lemma set_cacheResponse:
  "set (cacheResponse c input response) \<subseteq> insert (toLowerCase input, response) (set c)"
proof -
  have u: "set (AList.update k v c) \<subseteq> insert (k, v) (set c)" for k v
    by (induction c) auto
  have "set (Map_delete_first (AList.update k v c)) \<subseteq> insert (k, v) (set c)" for k v
    using set_delete_first u by blast
  with u show ?thesis
    by (auto simp: cacheResponse_def Map_set_def Let_def)
qed

lemma cacheResponse_fifo:
  assumes d: "distinct (map fst c)" and full: "length c = 100"
    and el: "3 < length input" "length input < 100" "\<not> containsConcerningContent input"
    and fresh: "toLowerCase input \<notin> fst ` set c"
  shows "cacheResponse c input response = tl c @ [(toLowerCase input, response)]"
proof -
  let ?k = "toLowerCase input"
  from full obtain k0 v0 c' where c: "c = (k0, v0) # c'" by (cases c) auto
  from d c have k0: "k0 \<notin> fst ` set c'" by auto
  from fresh c have ne: "k0 \<noteq> ?k" by auto
  have up: "AList.update ?k response c = c @ [(?k, response)]"
    using fresh by (rule update_fresh)
  have "AList.delete k0 c' = c'"
    using k0 by (rule delete_id)
  then have "AList.delete k0 (c' @ [(?k, response)]) = c' @ [(?k, response)]"
    using ne by (simp add: AList.delete_eq)
  then have "Map_delete_first (c @ [(?k, response)]) = c' @ [(?k, response)]"
    by (simp add: Map_delete_first_def Map_delete_def c)
  with up full el c show ?thesis
    by (simp add: cacheResponse_def Map_set_def Map_size_def)
qed

lemma length_update:
  "length (AList.update k v c) = (if k \<in> fst ` set c then length c else Suc (length c))"
  by (induction c) auto

lemma cacheResponse_stores:
  assumes sz: "length c \<le> 100"
    and el: "3 < length input" "length input < 100" "\<not> containsConcerningContent input"
  shows "Map_get (cacheResponse c input response) (toLowerCase input) = Some response"
proof -
  let ?k = "toLowerCase input"
  let ?c1 = "AList.update ?k response c"
  have got: "map_of ?c1 ?k = Some response" by (simp add: update_conv')
  show ?thesis
  proof (cases "100 < length ?c1")
    case False
    with el got show ?thesis
      by (simp add: cacheResponse_def Map_set_def Map_size_def Map_get_def)
  next
    case True
    with sz have fresh: "?k \<notin> fst ` set c" and full: "length c = 100"
      by (auto simp: length_update split: if_splits)
    from full obtain k0 v0 c' where c: "c = (k0, v0) # c'" by (cases c) auto
    with fresh have ne: "k0 \<noteq> ?k" by auto
    have c1: "?c1 = (k0, v0) # (c' @ [(?k, response)])"
      using update_fresh [OF fresh] c by simp
    have "map_of (AList.delete k0 ?c1) ?k = map_of ?c1 ?k"
      using ne by (simp add: delete_conv')
    then have "map_of (Map_delete_first ?c1) ?k = Some response"
      using got c1 by (simp add: Map_delete_first_def Map_delete_def)
    with True el show ?thesis
      by (simp add: cacheResponse_def Map_set_def Map_size_def Map_get_def)
  qed
qed

lemma cache_generateBotResponse:
  "cache (generateBotResponse c userInput history outcome rnd) = c \<or>
   (\<exists>r. cache (generateBotResponse c userInput history outcome rnd) = cacheResponse c userInput r)"
  by (auto simp: generateBotResponse_def try_block_def Let_def
           split: sum.splits json_value.splits option.splits if_splits)

lemma service_step_cases:
  "service_step c x = c \<or> (\<exists>input r. service_step c x = cacheResponse c input r)"
proof (cases x)
  case (Store input response)
  then show ?thesis by auto
next
  case (Resolve userInput history outcome rnd)
  with cache_generateBotResponse [of c userInput history outcome rnd]
  show ?thesis by auto
qed

lemma service_run_invariant:
  assumes "P c" and step: "\<And>c input r. P c \<Longrightarrow> P (cacheResponse c input r)"
  shows "P (service_run c ops)"
  using assms(1)
proof (induction ops arbitrary: c)
  case Nil
  then show ?case by (simp add: service_run_def)
next
  case (Cons x xs)
  from service_step_cases [of c x] Cons.prems step have "P (service_step c x)" by auto
  then have "P (service_run (service_step c x) xs)" by (rule Cons.IH)
  then show ?case by (simp add: service_run_def)
qed

lemma admitted_keys_cacheResponse:
  assumes "admitted_keys c"
  shows "admitted_keys (cacheResponse c input r)"
proof (cases "3 < length input \<and> length input < 100 \<and> \<not> containsConcerningContent input")
  case False
  then have "cacheResponse c input r = c" by (rule cacheResponse_rejected)
  with assms show ?thesis by simp
next
  case True
  then have new: "3 < length (toLowerCase input)" "length (toLowerCase input) < 100"
      "\<not> containsConcerningContent (toLowerCase input)"
      "toLowerCase (toLowerCase input) = toLowerCase input"
    by (simp_all add: length_toLowerCase concerning_toLowerCase toLowerCase_idem)
  show ?thesis
    unfolding admitted_keys_def
  proof (intro ballI, clarify)
    fix k v assume "(k, v) \<in> set (cacheResponse c input r)"
    with set_cacheResponse [of c input r]
    have "(k, v) = (toLowerCase input, r) \<or> (k, v) \<in> set c" by auto
    with new assms
    show "3 < length k \<and> length k < 100 \<and> \<not> containsConcerningContent k \<and> toLowerCase k = k"
      by (auto simp: admitted_keys_def)
  qed
qed

lemma admitted_keys_run: "admitted_keys (service_run [] ops)"
  by (rule service_run_invariant) (simp_all add: admitted_keys_def admitted_keys_cacheResponse [unfolded admitted_keys_def])

lemma length_run: "length (service_run [] ops) \<le> 100"
  by (rule service_run_invariant) (simp_all add: length_cacheResponse)

lemma distinct_run: "distinct (map fst (service_run [] ops))"
  by (rule service_run_invariant) (simp_all add: distinct_cacheResponse)

text \<open>
  C4, as amended. \<open>cacheResponse\<close> stores only an input whose length is strictly between
  3 and 100 (4 to 99 characters) and that the safety scanner does not flag; on a cache
  of at most 100 entries such an input is stored under its lower-cased text; and after
  every sequence of stores and resolutions from the empty cache, every key is the
  lower-cased text of such an input.
\<close>

theorem cacheResponse_admission:
  "(cacheResponse c input response \<noteq> c \<longrightarrow>
      3 < length input \<and> length input < 100 \<and> \<not> containsConcerningContent input)
   \<and> (Map_size c \<le> 100 \<and> 3 < length input \<and> length input < 100 \<and>
        \<not> containsConcerningContent input \<longrightarrow>
      Map_get (cacheResponse c input response) (toLowerCase input) = Some response)
   \<and> (\<forall>(k, v) \<in> set (service_run [] ops).
        (\<exists>admitted. k = toLowerCase admitted \<and> 3 < length admitted \<and> length admitted < 100 \<and>
           \<not> containsConcerningContent admitted)
        \<and> 3 < length k \<and> length k < 100 \<and> \<not> containsConcerningContent k)"
proof (intro conjI)
  show "cacheResponse c input response \<noteq> c \<longrightarrow>
      3 < length input \<and> length input < 100 \<and> \<not> containsConcerningContent input"
    using cacheResponse_rejected [of input c response] by blast
next
  show "Map_size c \<le> 100 \<and> 3 < length input \<and> length input < 100 \<and>
        \<not> containsConcerningContent input \<longrightarrow>
      Map_get (cacheResponse c input response) (toLowerCase input) = Some response"
    by (simp add: Map_size_def cacheResponse_stores)
next
  have inv: "admitted_keys (service_run [] ops)" by (rule admitted_keys_run)
  show "\<forall>(k, v) \<in> set (service_run [] ops).
        (\<exists>admitted. k = toLowerCase admitted \<and> 3 < length admitted \<and> length admitted < 100 \<and>
           \<not> containsConcerningContent admitted)
        \<and> 3 < length k \<and> length k < 100 \<and> \<not> containsConcerningContent k"
  proof (intro ballI, clarify)
    fix k v assume "(k, v) \<in> set (service_run [] ops)"
    with inv have k: "3 < length k" "length k < 100" "\<not> containsConcerningContent k"
        "toLowerCase k = k"
      by (auto simp: admitted_keys_def)
    then have "k = toLowerCase k \<and> 3 < length k \<and> length k < 100 \<and> \<not> containsConcerningContent k"
      by simp
    then have "\<exists>admitted. k = toLowerCase admitted \<and> 3 < length admitted \<and> length admitted < 100 \<and>
           \<not> containsConcerningContent admitted" by blast
    with k show "(\<exists>admitted. k = toLowerCase admitted \<and> 3 < length admitted \<and> length admitted < 100 \<and>
           \<not> containsConcerningContent admitted)
        \<and> 3 < length k \<and> length k < 100 \<and> \<not> containsConcerningContent k" by blast
  qed
qed

text \<open>
  The bounds as the claim words them, strictly between 4 and 99, fail: an input of four
  characters is stored.
\<close>

lemma abcd_clean: "\<not> containsConcerningContent ''abcd''"
  by (simp add: scan_defs)

theorem cacheResponse_admission_counterexample:
  "cacheResponse [] ''abcd'' ''ok'' = [(''abcd'', ''ok'')] \<and> \<not> 4 < length ''abcd''"
  by (simp add: cacheResponse_def abcd_clean Map_set_def Map_size_def text_defs)

lemma small_run_cache:
  "service_run [] small_run = [(''wie geht es'', ''gut''), (''was ist 2+2'', ''vier'')]"
proof -
  have c1: "\<not> containsConcerningContent ''Wie geht es''"
    and c2: "containsConcerningContent ''Ich habe Angst''"
    and c3: "\<not> containsConcerningContent ''Was ist 2+2''"
    by (simp_all add: scan_defs)
  have h: "\<not> hasConcerningPattern []"
    by (simp add: hasConcerningPattern_def userMessages_def slice_last_def)
  have g: "getCachedResponse [(''wie geht es'', ''gut'')] ''Was ist 2+2'' = None"
    by (simp add: getCachedResponse_def Map_has_def COMMON_PATTERNS_def test_any_def
        test_prefix_any_def text_defs)
  show ?thesis
    by (simp add: service_run_def small_run_def cacheResponse_def generateBotResponse_def
        c1 c2 c3 h g try_block_def race_def responsePromise_def ok_def
        Map_set_def Map_size_def text_defs)
qed

theorem cacheResponse_admission_witness:
  "cacheResponse [] ''abcd'' ''ok'' \<noteq> []
   \<and> 3 < length ''abcd'' \<and> length ''abcd'' < 100 \<and> \<not> containsConcerningContent ''abcd''
   \<and> Map_size [] \<le> 100
   \<and> Map_get (cacheResponse [] ''abcd'' ''ok'') (toLowerCase ''abcd'') = Some ''ok''
   \<and> (''wie geht es'', ''gut'') \<in> set (service_run [] small_run)
   \<and> 3 < length ''wie geht es'' \<and> length ''wie geht es'' < 100
   \<and> \<not> containsConcerningContent ''wie geht es''"
proof -
  note inst = cacheResponse_admission [of "[]" "''abcd''" "''ok''" small_run]
  have stored: "cacheResponse [] ''abcd'' ''ok'' \<noteq> []"
    by (simp add: cacheResponse_def abcd_clean Map_set_def Map_size_def)
  with inst have el: "3 < length ''abcd'' \<and> length ''abcd'' < 100 \<and> \<not> containsConcerningContent ''abcd''"
    by blast
  have sz: "Map_size [] \<le> 100" by (simp add: Map_size_def)
  with inst el have got: "Map_get (cacheResponse [] ''abcd'' ''ok'') (toLowerCase ''abcd'') = Some ''ok''"
    by blast
  have mem: "(''wie geht es'', ''gut'') \<in> set (service_run [] small_run)"
    by (simp add: small_run_cache)
  with inst have "3 < length ''wie geht es'' \<and> length ''wie geht es'' < 100
      \<and> \<not> containsConcerningContent ''wie geht es''"
    by blast
  with stored el sz got mem show ?thesis by blast
qed

text \<open>
  C5. The cache is bounded and evicts first in, first out: storing an admitted input
  whose key is new into a cache of 100 entries drops exactly the oldest entry and
  appends the new one, the other 99 staying as they are and in order; a store on a
  cache of at most 100 entries leaves at most 100; and no sequence of stores and
  resolutions from the empty cache ever leaves more than 100.
\<close>

theorem cacheResponse_bounded_fifo:
  "(distinct (map fst c) \<and> Map_size c = 100 \<and> 3 < length input \<and> length input < 100 \<and>
      \<not> containsConcerningContent input \<and> \<not> Map_has c (toLowerCase input) \<longrightarrow>
      cacheResponse c input response = tl c @ [(toLowerCase input, response)])
   \<and> (Map_size c \<le> 100 \<longrightarrow> Map_size (cacheResponse c input response) \<le> 100)
   \<and> Map_size (service_run [] ops) \<le> 100"
proof (intro conjI impI)
  assume a: "distinct (map fst c) \<and> Map_size c = 100 \<and> 3 < length input \<and> length input < 100 \<and>
      \<not> containsConcerningContent input \<and> \<not> Map_has c (toLowerCase input)"
  then have "toLowerCase input \<notin> fst ` set c"
    by (simp add: Map_has_def map_of_eq_None_iff)
  with a show "cacheResponse c input response = tl c @ [(toLowerCase input, response)]"
    by (simp add: Map_size_def cacheResponse_fifo)
next
  assume "Map_size c \<le> 100"
  then show "Map_size (cacheResponse c input response) \<le> 100"
    by (simp add: Map_size_def length_cacheResponse)
next
  show "Map_size (service_run [] ops) \<le> 100"
    by (simp add: Map_size_def length_run)
qed

lemma full_cache_keys:
  "map fst full_cache = map (\<lambda>(x, y). ''frage '' @ [x, y]) (List.product ''abcdefghij'' ''abcdefghij'')"
  by (simp add: full_cache_def split_def comp_def)

lemma full_cache_distinct: "distinct (map fst full_cache)"
proof -
  have "distinct (List.product ''abcdefghij'' ''abcdefghij'')"
    by (rule distinct_product) simp_all
  moreover have "inj (\<lambda>(x::char, y::char). ''frage '' @ [x, y])"
    by (auto simp: inj_on_def)
  ultimately show ?thesis
    unfolding full_cache_keys by (simp add: distinct_map inj_on_subset)
qed

lemma full_cache_size: "Map_size full_cache = 100"
  by (simp add: Map_size_def full_cache_def)

lemma full_cache_fresh: "\<not> Map_has full_cache ''neue frage''"
proof -
  have "''neue frage'' \<notin> set (map fst full_cache)"
    unfolding full_cache_keys by auto
  then show ?thesis by (simp add: Map_has_def map_of_eq_None_iff)
qed

lemma full_cache_first: "hd full_cache = (''frage aa'', ''antwort'')"
  by (simp add: full_cache_def)

theorem cacheResponse_bounded_fifo_witness:
  "distinct (map fst full_cache) \<and> Map_size full_cache = 100
   \<and> 3 < length ''Neue Frage'' \<and> length ''Neue Frage'' < 100
   \<and> \<not> containsConcerningContent ''Neue Frage''
   \<and> \<not> Map_has full_cache (toLowerCase ''Neue Frage'')
   \<and> hd full_cache = (''frage aa'', ''antwort'')
   \<and> cacheResponse full_cache ''Neue Frage'' ''gern'' = tl full_cache @ [(''neue frage'', ''gern'')]
   \<and> Map_size (cacheResponse full_cache ''Neue Frage'' ''gern'') \<le> 100"
proof -
  note inst = cacheResponse_bounded_fifo [of full_cache "''Neue Frage''" "''gern''" "[]"]
  have lc: "toLowerCase ''Neue Frage'' = ''neue frage''" by (simp add: text_defs)
  have el: "3 < length ''Neue Frage'' \<and> length ''Neue Frage'' < 100
      \<and> \<not> containsConcerningContent ''Neue Frage''"
    by (simp add: scan_defs)
  have fresh: "\<not> Map_has full_cache (toLowerCase ''Neue Frage'')"
    by (simp add: lc full_cache_fresh)
  from inst full_cache_distinct full_cache_size el fresh
  have fifo: "cacheResponse full_cache ''Neue Frage'' ''gern'' = tl full_cache @ [(''neue frage'', ''gern'')]"
    by (simp add: lc)
  from inst full_cache_size
  have "Map_size (cacheResponse full_cache ''Neue Frage'' ''gern'') \<le> 100" by simp
  with full_cache_distinct full_cache_size el fresh full_cache_first fifo show ?thesis by blast
qed

section \<open>Properties of the resolution\<close>

lemma resolution_override:
  assumes "containsConcerningContent userInput \<or> hasConcerningPattern history"
  shows "generateBotResponse c userInput history outcome rnd =
           \<lparr>reply = generateSafetyResourcesMessage, cache = c, requests = []\<rparr>"
  using assms by (auto simp: generateBotResponse_def)

lemma resolution_cached:
  assumes "\<not> containsConcerningContent userInput" "\<not> hasConcerningPattern history"
    and "getCachedResponse c userInput = Some cached" "cached \<noteq> []"
  shows "generateBotResponse c userInput history outcome rnd =
           \<lparr>reply = cached, cache = c, requests = []\<rparr>"
  using assms by (simp add: generateBotResponse_def)

lemma resolution_remote_iff:
  "requests (generateBotResponse c userInput history outcome rnd) \<noteq> [] \<longleftrightarrow>
     \<not> containsConcerningContent userInput \<and> \<not> hasConcerningPattern history \<and>
     (getCachedResponse c userInput = None \<or> getCachedResponse c userInput = Some [])"
  by (auto simp: generateBotResponse_def Let_def split: sum.splits)

lemma resolution_failure:
  assumes "requests (generateBotResponse c userInput history outcome rnd) \<noteq> []"
    and "try_block c userInput outcome = Inl message"
  shows "generateBotResponse c userInput history outcome rnd =
           \<lparr>reply = catch_block message rnd, cache = c,
            requests = [(userInput, slice_last 5 history)]\<rparr>"
  using assms by (auto simp: generateBotResponse_def Let_def split: if_splits)

lemma resolution_success:
  assumes "requests (generateBotResponse c userInput history outcome rnd) \<noteq> []"
    and "try_block c userInput outcome = Inr (response, c')"
  shows "generateBotResponse c userInput history outcome rnd =
           \<lparr>reply = response, cache = c', requests = [(userInput, slice_last 5 history)]\<rparr>"
  using assms by (auto simp: generateBotResponse_def Let_def split: if_splits)

lemma try_block_success:
  "try_block c userInput outcome = Inr (response, c') \<longleftrightarrow>
     (\<exists>e. race outcome = Inr (JObject (Some response) e)) \<and> response \<noteq> [] \<and>
     c' = cacheResponse c userInput response"
  by (auto simp: try_block_def split: sum.splits json_value.splits option.splits)

lemma catch_block_literal:
  assumes "rnd < 4"
  shows "catch_block message rnd \<in> set error_replies"
proof -
  have "length fallbackResponses = 4"
    by (simp add: fallbackResponses_def)
  with assms have "fallbackResponses ! rnd \<in> set fallbackResponses"
    by (simp only: nth_mem)
  then show ?thesis
    by (simp add: catch_block_def error_replies_def)
qed

lemma catch_block_classified:
  "classified message \<Longrightarrow> catch_block message rnd = catch_block message rnd'"
  by (auto simp: classified_def catch_block_def)

lemma catch_block_unclassified:
  "\<not> classified message \<Longrightarrow> catch_block message rnd = fallbackResponses ! rnd"
  by (auto simp: classified_def catch_block_def)

text \<open>
  C1. An input that contains a concern keyword, up to letter case, resolves to the
  safety resources message whatever the cache holds and whatever the remote service
  would answer: the cache is neither read nor written and no request is sent.
\<close>

theorem concerning_input_overrides:
  assumes "keyword \<in> set CONCERN_KEYWORDS"
    and "toLowerCase userInput = before @ toLowerCase keyword @ after"
  shows "generateBotResponse responseCache userInput history outcome rnd =
           \<lparr>reply = generateSafetyResourcesMessage, cache = responseCache, requests = []\<rparr>"
proof -
  from assms have "containsConcerningContent userInput"
    unfolding concerning_iff by blast
  then show ?thesis by (simp add: resolution_override)
qed

theorem concerning_input_overrides_witness:
  "''angst'' \<in> set CONCERN_KEYWORDS
   \<and> toLowerCase ''Ich habe ANGST'' = ''ich habe '' @ toLowerCase ''angst'' @ ''''
   \<and> Map_get stale_cache (toLowerCase ''Ich habe ANGST'') = Some ''Das klingt spannend!''
   \<and> generateBotResponse stale_cache ''Ich habe ANGST'' [] reply_vier 0 =
        \<lparr>reply = generateSafetyResourcesMessage, cache = stale_cache, requests = []\<rparr>"
proof -
  have k: "''angst'' \<in> set CONCERN_KEYWORDS"
    by (simp add: CONCERN_KEYWORDS_def)
  have l: "toLowerCase ''Ich habe ANGST'' = ''ich habe '' @ toLowerCase ''angst'' @ ''''"
    by (simp add: text_defs)
  have g: "Map_get stale_cache (toLowerCase ''Ich habe ANGST'') = Some ''Das klingt spannend!''"
    by (simp add: Map_get_def stale_cache_def text_defs)
  from concerning_input_overrides [OF k l] k l g show ?thesis by blast
qed

text \<open>
  C2. A resolution always ends in a reply: the safety resources message, a cached or
  canned reply, the text the remote stage returned, or, whenever the \<open>try\<close> block
  throws (timeout, network error, error status, unreadable or empty response), one of
  the ten literal sentences of the \<open>catch\<close> block. No error leaves the function.
\<close>

theorem resolution_never_throws:
  assumes "rnd < 4"
  shows "reply (generateBotResponse c userInput history outcome rnd) = generateSafetyResourcesMessage
       \<or> getCachedResponse c userInput = Some (reply (generateBotResponse c userInput history outcome rnd))
       \<or> (\<exists>e. race outcome = Inr (JObject (Some (reply (generateBotResponse c userInput history outcome rnd))) e))
       \<or> ((\<exists>thrown. try_block c userInput outcome = Inl thrown) \<and>
           reply (generateBotResponse c userInput history outcome rnd) \<in> set error_replies)"
proof (cases "requests (generateBotResponse c userInput history outcome rnd) = []")
  case True
  then consider "containsConcerningContent userInput \<or> hasConcerningPattern history"
    | cached where "\<not> containsConcerningContent userInput" "\<not> hasConcerningPattern history"
        "getCachedResponse c userInput = Some cached" "cached \<noteq> []"
    using resolution_remote_iff [of c userInput history outcome rnd] by auto
  then show ?thesis
  proof cases
    case 1
    then show ?thesis by (simp add: resolution_override)
  next
    case 2
    then show ?thesis by (simp add: resolution_cached)
  qed
next
  case False
  show ?thesis
  proof (cases "try_block c userInput outcome")
    case (Inl thrown)
    with False have "reply (generateBotResponse c userInput history outcome rnd) = catch_block thrown rnd"
      by (simp add: resolution_failure)
    with assms Inl show ?thesis by (simp add: catch_block_literal)
  next
    case (Inr ok)
    obtain response c' where ok: "ok = (response, c')" by (cases ok)
    with False Inr have "reply (generateBotResponse c userInput history outcome rnd) = response"
      by (simp add: resolution_success)
    moreover from Inr ok have "\<exists>e. race outcome = Inr (JObject (Some response) e)"
      by (simp add: try_block_success)
    ultimately show ?thesis by simp
  qed
qed

lemma no_pattern_2plus2: "getCachedResponse [] ''Was ist 2+2'' = None"
  by (simp add: getCachedResponse_def Map_has_def COMMON_PATTERNS_def test_any_def
      test_prefix_any_def text_defs)

lemma clean_2plus2: "\<not> containsConcerningContent ''Was ist 2+2''"
  by (simp add: scan_defs)

lemma no_history: "\<not> hasConcerningPattern []"
  by (simp add: hasConcerningPattern_def userMessages_def slice_last_def)

lemma empty_reply_thrown: "try_block c userInput empty_reply = Inl ''Empty response received''"
  by (simp add: try_block_def race_def responsePromise_def ok_def empty_reply_def)

lemma empty_unclassified: "\<not> classified ''Empty response received''"
  by (simp add: classified_def text_defs)

lemma empty_reply_resolution:
  "generateBotResponse [] ''Was ist 2+2'' [] empty_reply rnd =
     \<lparr>reply = fallbackResponses ! rnd, cache = [], requests = [(''Was ist 2+2'', [])]\<rparr>"
proof -
  have "requests (generateBotResponse [] ''Was ist 2+2'' [] empty_reply rnd) \<noteq> []"
    by (simp add: resolution_remote_iff no_pattern_2plus2 clean_2plus2 no_history)
  then show ?thesis
    by (simp add: resolution_failure [OF _ empty_reply_thrown]
        catch_block_unclassified [OF empty_unclassified] slice_last_def)
qed

theorem resolution_never_throws_witness:
  "(2::nat) < 4
   \<and> try_block [] ''Was ist 2+2'' empty_reply = Inl ''Empty response received''
   \<and> reply (generateBotResponse [] ''Was ist 2+2'' [] empty_reply 2) =
       ''Es tut mir leid, aber ich kann gerade nicht richtig antworten. Lass uns in ein paar Minuten noch einmal versuchen zu sprechen.''
   \<and> reply (generateBotResponse [] ''Was ist 2+2'' [] empty_reply 2) \<in> set error_replies"
proof -
  have r: "reply (generateBotResponse [] ''Was ist 2+2'' [] empty_reply 2) =
       ''Es tut mir leid, aber ich kann gerade nicht richtig antworten. Lass uns in ein paar Minuten noch einmal versuchen zu sprechen.''"
    by (simp add: empty_reply_resolution fallbackResponses_def)
  have a: "reply (generateBotResponse [] ''Was ist 2+2'' [] empty_reply 2) \<noteq> generateSafetyResourcesMessage"
    by (simp add: r generateSafetyResourcesMessage_def)
  have b: "getCachedResponse [] ''Was ist 2+2'' \<noteq>
      Some (reply (generateBotResponse [] ''Was ist 2+2'' [] empty_reply 2))"
    by (simp add: no_pattern_2plus2)
  have c: "\<not> (\<exists>e. race empty_reply =
      Inr (JObject (Some (reply (generateBotResponse [] ''Was ist 2+2'' [] empty_reply 2))) e))"
    by (simp add: race_def responsePromise_def ok_def empty_reply_def)
  have lt: "(2::nat) < 4" by simp
  from resolution_never_throws [OF lt, of "[]" "''Was ist 2+2''" "[]" empty_reply] a b c
  have "reply (generateBotResponse [] ''Was ist 2+2'' [] empty_reply 2) \<in> set error_replies"
    by blast
  with lt r empty_reply_thrown show ?thesis by blast
qed

lemma getCachedResponse_stored:
  assumes "Map_get c (toLowerCase userInput) = Some response"
  shows "getCachedResponse c userInput = Some response"
  using assms by (simp add: getCachedResponse_def Map_has_def Map_get_def)

text \<open>
  C7. When a resolution on a cache of at most 100 entries has written the cache, a
  second resolution of the same input with the same history returns the same reply
  from the cache, leaves the cache as it is and sends no request, whatever the remote
  service would answer the second time.
\<close>

theorem resolution_idempotent:
  assumes size: "Map_size c \<le> 100"
    and stored: "cache (generateBotResponse c userInput history outcome rnd) \<noteq> c"
  shows "generateBotResponse (cache (generateBotResponse c userInput history outcome rnd))
           userInput history outcome' rnd' =
         \<lparr>reply = reply (generateBotResponse c userInput history outcome rnd),
          cache = cache (generateBotResponse c userInput history outcome rnd),
          requests = []\<rparr>"
proof -
  let ?first = "generateBotResponse c userInput history outcome rnd"
  have remote: "requests ?first \<noteq> []"
  proof
    assume "requests ?first = []"
    then consider "containsConcerningContent userInput \<or> hasConcerningPattern history"
      | cached where "\<not> containsConcerningContent userInput" "\<not> hasConcerningPattern history"
          "getCachedResponse c userInput = Some cached" "cached \<noteq> []"
      using resolution_remote_iff [of c userInput history outcome rnd] by auto
    then have "cache ?first = c"
      by cases (simp_all add: resolution_override resolution_cached)
    with stored show False by simp
  qed
  then have clean: "\<not> containsConcerningContent userInput" "\<not> hasConcerningPattern history"
    by (simp_all add: resolution_remote_iff)
  obtain response c' where ok: "try_block c userInput outcome = Inr (response, c')"
  proof (cases "try_block c userInput outcome")
    case (Inl thrown)
    with remote have "cache ?first = c" by (simp add: resolution_failure)
    with stored show ?thesis by simp
  next
    case (Inr ok)
    then show ?thesis using that by (cases ok) simp
  qed
  with remote have first: "reply ?first = response" "cache ?first = c'"
    by (simp_all add: resolution_success)
  from ok have truthy: "response \<noteq> []" and c': "c' = cacheResponse c userInput response"
    by (simp_all add: try_block_success)
  from stored first c' have "cacheResponse c userInput response \<noteq> c" by simp
  then have "3 < length userInput \<and> length userInput < 100 \<and> \<not> containsConcerningContent userInput"
    using cacheResponse_rejected [of userInput c response] by blast
  with size have "Map_get c' (toLowerCase userInput) = Some response"
    unfolding c' by (simp add: Map_size_def cacheResponse_stores)
  then have "getCachedResponse c' userInput = Some response"
    by (rule getCachedResponse_stored)
  with clean truthy have "generateBotResponse c' userInput history outcome' rnd' =
      \<lparr>reply = response, cache = c', requests = []\<rparr>"
    by (simp add: resolution_cached)
  with first show ?thesis by simp
qed

lemma reply_vier_resolution:
  "generateBotResponse [] ''Was ist 2+2'' [] reply_vier rnd =
     \<lparr>reply = ''vier'', cache = [(''was ist 2+2'', ''vier'')], requests = [(''Was ist 2+2'', [])]\<rparr>"
proof -
  have remote: "requests (generateBotResponse [] ''Was ist 2+2'' [] reply_vier rnd) \<noteq> []"
    by (simp add: resolution_remote_iff no_pattern_2plus2 clean_2plus2 no_history)
  have "try_block [] ''Was ist 2+2'' reply_vier = Inr (''vier'', [(''was ist 2+2'', ''vier'')])"
    by (simp add: try_block_def race_def responsePromise_def ok_def reply_vier_def
        cacheResponse_def clean_2plus2 Map_set_def Map_size_def text_defs)
  from resolution_success [OF remote this] show ?thesis
    by (simp add: slice_last_def)
qed

theorem resolution_idempotent_witness:
  "Map_size [] \<le> 100
   \<and> generateBotResponse [] ''Was ist 2+2'' [] reply_vier 0 =
       \<lparr>reply = ''vier'', cache = [(''was ist 2+2'', ''vier'')], requests = [(''Was ist 2+2'', [])]\<rparr>
   \<and> [(''was ist 2+2'', ''vier'')] \<noteq> ([] :: jsmap)
   \<and> generateBotResponse [(''was ist 2+2'', ''vier'')] ''Was ist 2+2'' [] TimerFirst 1 =
       \<lparr>reply = ''vier'', cache = [(''was ist 2+2'', ''vier'')], requests = []\<rparr>"
proof -
  have size: "Map_size [] \<le> 100" by (simp add: Map_size_def)
  have stored: "cache (generateBotResponse [] ''Was ist 2+2'' [] reply_vier 0) \<noteq> []"
    by (simp add: reply_vier_resolution)
  from resolution_idempotent [OF size stored, of TimerFirst 1]
  have "generateBotResponse [(''was ist 2+2'', ''vier'')] ''Was ist 2+2'' [] TimerFirst 1 =
       \<lparr>reply = ''vier'', cache = [(''was ist 2+2'', ''vier'')], requests = []\<rparr>"
    by (simp add: reply_vier_resolution)
  with size reply_vier_resolution [of 0] show ?thesis by simp
qed

lemma race_500: "race (Responded 500 b) = Inl ''HTTP error! status: 500 - Serverfehler''"
proof -
  have "dec 500 = ''500''" by (simp add: dec.simps digit_def)
  then show ?thesis by (simp add: race_def responsePromise_def ok_def)
qed

lemma race_502: "race (Responded 502 b) = Inl ''HTTP error! status: 502''"
proof -
  have "dec 502 = ''502''" by (simp add: dec.simps digit_def)
  then show ?thesis by (simp add: race_def responsePromise_def ok_def)
qed

lemma catch_block_500: "catch_block ''HTTP error! status: 500 - Serverfehler'' rnd = server_reply"
  by (simp add: catch_block_def text_defs)

lemma catch_block_502: "catch_block ''HTTP error! status: 502'' rnd = gateway_reply"
  by (simp add: catch_block_def text_defs)

lemma try_block_thrown:
  "race outcome = Inl thrown \<Longrightarrow> try_block c userInput outcome = Inl thrown"
  by (simp add: try_block_def)

text \<open>
  C8, as amended. Every failure of the remote stage is answered with one of ten literal
  sentences, none of them built from the error. The sentence is fixed by the error
  alone where the \<open>catch\<close> block has a sentence for it: the timer gives the timeout
  sentence, status 500 the server sentence, status 502 the gateway sentence, and two
  resolutions failing so return the same sentence. Every other failure, an empty
  response among them, returns the one of the four generic sentences that the random
  draw selects.
\<close>

theorem failure_sentences:
  assumes "rnd < 4"
    and "requests (generateBotResponse c userInput history outcome rnd) \<noteq> []"
    and "try_block c userInput outcome = Inl thrown"
  shows "reply (generateBotResponse c userInput history outcome rnd) = catch_block thrown rnd
       \<and> reply (generateBotResponse c userInput history outcome rnd) \<in> set error_replies
       \<and> (classified thrown \<longrightarrow>
            reply (generateBotResponse c userInput history outcome rnd') =
            reply (generateBotResponse c userInput history outcome rnd))
       \<and> (\<not> classified thrown \<longrightarrow>
            reply (generateBotResponse c userInput history outcome rnd) = fallbackResponses ! rnd)
       \<and> (outcome = TimerFirst \<longrightarrow>
            reply (generateBotResponse c userInput history outcome rnd) = timeout_reply)
       \<and> ((\<exists>b. outcome = Responded 500 b) \<longrightarrow>
            reply (generateBotResponse c userInput history outcome rnd) = server_reply)
       \<and> ((\<exists>b. outcome = Responded 502 b) \<longrightarrow>
            reply (generateBotResponse c userInput history outcome rnd) = gateway_reply)
       \<and> (thrown = ''Empty response received'' \<longrightarrow>
            reply (generateBotResponse c userInput history outcome rnd) = fallbackResponses ! rnd)"
proof -
  have remote': "requests (generateBotResponse c userInput history outcome rnd') \<noteq> []"
    using assms(2) by (simp add: resolution_remote_iff)
  have r: "reply (generateBotResponse c userInput history outcome rnd) = catch_block thrown rnd"
    using assms(2,3) by (simp add: resolution_failure)
  have r': "reply (generateBotResponse c userInput history outcome rnd') = catch_block thrown rnd'"
    using remote' assms(3) by (simp add: resolution_failure)
  have lit: "reply (generateBotResponse c userInput history outcome rnd) \<in> set error_replies"
    using assms(1) by (simp add: r catch_block_literal)
  have cl: "classified thrown \<longrightarrow>
            reply (generateBotResponse c userInput history outcome rnd') =
            reply (generateBotResponse c userInput history outcome rnd)"
    using catch_block_classified [of thrown rnd' rnd] by (simp add: r r')
  have un: "\<not> classified thrown \<longrightarrow>
            reply (generateBotResponse c userInput history outcome rnd) = fallbackResponses ! rnd"
    by (simp add: r catch_block_unclassified)
  have timer: "outcome = TimerFirst \<longrightarrow>
            reply (generateBotResponse c userInput history outcome rnd) = timeout_reply"
  proof
    assume "outcome = TimerFirst"
    with assms(3) have "thrown = ''Request timeout''"
      by (simp add: try_block_def race_def)
    then show "reply (generateBotResponse c userInput history outcome rnd) = timeout_reply"
      by (simp add: r catch_block_def)
  qed
  have s500: "(\<exists>b. outcome = Responded 500 b) \<longrightarrow>
            reply (generateBotResponse c userInput history outcome rnd) = server_reply"
  proof
    assume "\<exists>b. outcome = Responded 500 b"
    then obtain b where "outcome = Responded 500 b" by blast
    with assms(3) have "thrown = ''HTTP error! status: 500 - Serverfehler''"
      using try_block_thrown [OF race_500, of c userInput b] by simp
    then show "reply (generateBotResponse c userInput history outcome rnd) = server_reply"
      by (simp only: r catch_block_500)
  qed
  have s502: "(\<exists>b. outcome = Responded 502 b) \<longrightarrow>
            reply (generateBotResponse c userInput history outcome rnd) = gateway_reply"
  proof
    assume "\<exists>b. outcome = Responded 502 b"
    then obtain b where "outcome = Responded 502 b" by blast
    with assms(3) have "thrown = ''HTTP error! status: 502''"
      using try_block_thrown [OF race_502, of c userInput b] by simp
    then show "reply (generateBotResponse c userInput history outcome rnd) = gateway_reply"
      by (simp only: r catch_block_502)
  qed
  have em: "thrown = ''Empty response received'' \<longrightarrow>
            reply (generateBotResponse c userInput history outcome rnd) = fallbackResponses ! rnd"
    using un empty_unclassified by simp
  from r lit cl un timer s500 s502 em show ?thesis by blast
qed

text \<open>
  One sentence for each kind, as the claim words it, fails: two resolutions that both
  end in an empty response return different sentences when the draws differ.
\<close>

theorem failure_sentences_counterexample:
  "try_block [] ''Was ist 2+2'' empty_reply = Inl ''Empty response received''
   \<and> reply (generateBotResponse [] ''Was ist 2+2'' [] empty_reply 0) \<noteq>
     reply (generateBotResponse [] ''Was ist 2+2'' [] empty_reply 1)"
  by (simp add: empty_reply_thrown empty_reply_resolution fallbackResponses_def)

lemma remote_2plus2: "requests (generateBotResponse [] ''Was ist 2+2'' [] outcome rnd) \<noteq> []"
  by (simp add: resolution_remote_iff no_pattern_2plus2 clean_2plus2 no_history)

theorem failure_sentences_witness:
  "(2::nat) < 4
   \<and> requests (generateBotResponse [] ''Was ist 2+2'' [] TimerFirst 2) \<noteq> []
   \<and> try_block [] ''Was ist 2+2'' TimerFirst = Inl ''Request timeout''
   \<and> classified ''Request timeout''
   \<and> reply (generateBotResponse [] ''Was ist 2+2'' [] TimerFirst 2) = timeout_reply
   \<and> reply (generateBotResponse [] ''Was ist 2+2'' [] TimerFirst 3) = timeout_reply
   \<and> reply (generateBotResponse [] ''Was ist 2+2'' [] (Responded 500 (BadJson ''<html>'')) 2) = server_reply
   \<and> reply (generateBotResponse [] ''Was ist 2+2'' [] (Responded 502 (BadJson ''<html>'')) 2) = gateway_reply
   \<and> \<not> classified ''Empty response received''
   \<and> reply (generateBotResponse [] ''Was ist 2+2'' [] empty_reply 2) = fallbackResponses ! 2
   \<and> reply (generateBotResponse [] ''Was ist 2+2'' [] empty_reply 2) \<in> set error_replies"
proof -
  have lt: "(2::nat) < 4" by simp
  have t: "try_block [] ''Was ist 2+2'' TimerFirst = Inl ''Request timeout''"
    by (simp add: try_block_def race_def)
  have ct: "classified ''Request timeout''"
    by (simp add: classified_def)
  have s500: "try_block [] ''Was ist 2+2'' (Responded 500 (BadJson ''<html>'')) =
      Inl ''HTTP error! status: 500 - Serverfehler''"
    by (rule try_block_thrown [OF race_500])
  have s502: "try_block [] ''Was ist 2+2'' (Responded 502 (BadJson ''<html>'')) =
      Inl ''HTTP error! status: 502''"
    by (rule try_block_thrown [OF race_502])
  note timer = failure_sentences [OF lt remote_2plus2 t, of 3]
  note server = failure_sentences [OF lt remote_2plus2 s500, of 3]
  note gateway = failure_sentences [OF lt remote_2plus2 s502, of 3]
  note empty = failure_sentences [OF lt remote_2plus2 empty_reply_thrown, of 3]
  from timer have a: "reply (generateBotResponse [] ''Was ist 2+2'' [] TimerFirst 2) = timeout_reply"
    by blast
  from timer ct have "reply (generateBotResponse [] ''Was ist 2+2'' [] TimerFirst 3) =
      reply (generateBotResponse [] ''Was ist 2+2'' [] TimerFirst 2)"
    by blast
  with a have b: "reply (generateBotResponse [] ''Was ist 2+2'' [] TimerFirst 3) = timeout_reply"
    by (simp only:)
  from server have c: "reply (generateBotResponse [] ''Was ist 2+2'' [] (Responded 500 (BadJson ''<html>'')) 2) = server_reply"
    by blast
  from gateway have d: "reply (generateBotResponse [] ''Was ist 2+2'' [] (Responded 502 (BadJson ''<html>'')) 2) = gateway_reply"
    by blast
  from empty empty_unclassified
  have e: "reply (generateBotResponse [] ''Was ist 2+2'' [] empty_reply 2) = fallbackResponses ! 2"
    and f: "reply (generateBotResponse [] ''Was ist 2+2'' [] empty_reply 2) \<in> set error_replies"
    by blast+
  from lt remote_2plus2 [of TimerFirst 2] t ct a b c d empty_unclassified e f
  show ?thesis by blast
qed

section \<open>Properties of the output filter\<close>

lemma occurrences_followed_iff:
  assumes "w \<noteq> []"
  shows "occurrences_followed w k s \<longleftrightarrow>
           (\<forall>before after. s = before @ w @ after \<longrightarrow> (\<exists>rest. after = k @ rest))"
proof (induction s)
  case Nil
  with assms show ?case by simp
next
  case (Cons c cs)
  have here: "(\<not> startsWith (c # cs) w \<or> startsWith (drop (length w) (c # cs)) k) \<longleftrightarrow>
      (\<forall>after. c # cs = w @ after \<longrightarrow> (\<exists>rest. after = k @ rest))"
    by (auto simp: startsWith_iff)
  have split: "(\<forall>before after. c # cs = before @ w @ after \<longrightarrow> (\<exists>rest. after = k @ rest)) \<longleftrightarrow>
      (\<forall>after. c # cs = w @ after \<longrightarrow> (\<exists>rest. after = k @ rest)) \<and>
      (\<forall>before after. cs = before @ w @ after \<longrightarrow> (\<exists>rest. after = k @ rest))"
    (is "?all \<longleftrightarrow> ?head \<and> ?tail")
  proof
    assume a: ?all
    have ?head using a [rule_format, of "[]"] by simp
    moreover have ?tail
    proof (intro allI impI)
      fix before after assume "cs = before @ w @ after"
      then have "c # cs = (c # before) @ w @ after" by simp
      with a show "\<exists>rest. after = k @ rest" by blast
    qed
    ultimately show "?head \<and> ?tail" ..
  next
    assume ht: "?head \<and> ?tail"
    show ?all
    proof (intro allI impI)
      fix before after assume eq: "c # cs = before @ w @ after"
      show "\<exists>rest. after = k @ rest"
      proof (cases before)
        case Nil
        with eq ht show ?thesis by simp
      next
        case (Cons b before')
        with eq have "cs = before' @ w @ after" by simp
        with ht show ?thesis by blast
      qed
    qed
  qed
  show ?case
    by (simp only: occurrences_followed.simps here split Cons.IH)
qed

lemma sex_match_followed:
  assumes "occurrences_followed ''sex'' ''ual abuse'' s"
  shows "\<not> sex_match s"
  using assms
proof (induction s)
  case Nil
  then show ?case by simp
next
  case (Cons c cs)
  then have tail: "\<not> sex_match cs" by simp
  have three: "length ''sex'' = 3" by simp
  from Cons.prems
  have "\<not> startsWith (c # cs) ''sex'' \<or>
      startsWith (drop (length ''sex'') (c # cs)) ''ual abuse''"
    by (simp only: occurrences_followed.simps)
  then have "\<not> startsWith (c # cs) ''sex'' \<or> startsWith (drop 3 (c # cs)) ''ual abuse''"
    by (simp only: three)
  with tail show ?case
    unfolding sex_match.simps list_ex_Cons_iff list_ex_Nil_iff by blast
qed

lemma unsafePatterns_words: "unsafePatterns = test_sex # map (\<lambda>w. test_any [w]) blocked_words"
  by (simp add: unsafePatterns_def blocked_words_def)

lemma isSafeResponse_iff:
  "isSafeResponse txt \<longleftrightarrow>
     \<not> sex_match (toLowerCase txt) \<and>
     (\<forall>w \<in> set blocked_words. \<not> includes_str (toLowerCase txt) w)"
  by (auto simp: isSafeResponse_def unsafePatterns_words test_sex_def test_any_def list_ex_iff)

lemma carve_out_safe:
  assumes words: "\<forall>w \<in> set blocked_words. \<not> (\<exists>u v. toLowerCase txt = u @ w @ v)"
    and sex: "\<forall>before after. toLowerCase txt = before @ ''sex'' @ after \<longrightarrow>
                (\<exists>rest. after = ''ual abuse'' @ rest)"
  shows "isSafeResponse txt"
proof -
  have "occurrences_followed ''sex'' ''ual abuse'' (toLowerCase txt)"
    using sex by (simp add: occurrences_followed_iff)
  then have "\<not> sex_match (toLowerCase txt)" by (rule sex_match_followed)
  with words show ?thesis by (simp add: isSafeResponse_iff includes_str_iff)
qed

section \<open>Properties of the route\<close>

lemma Map_has_get: "Map_has c k \<longleftrightarrow> Map_get c k \<noteq> None"
  by (simp add: Map_has_def Map_get_def)

lemma handler_replied:
  assumes "req_method req = ''POST''" "req_message req = Some msg" "msg \<noteq> []"
    and "\<not> missingKey apiKey" "\<not> Map_has c (cacheKey msg (req_messageHistory req))"
  shows "handler apiKey c req (Replied botResponse) =
           on_reply c (cacheKey msg (req_messageHistory req)) botResponse"
  using assms by (simp add: handler_def handleApiRequest_def Map_has_get)

lemma handler0_replied:
  assumes "req_method req = ''POST''" "req_message req = Some msg" "msg \<noteq> []"
    and "\<not> missingKey apiKey" "\<not> Map_has c (cacheKey msg (req_messageHistory req))"
  shows "handler0 apiKey c req (Replied botResponse) =
           on_reply c (cacheKey msg (req_messageHistory req)) botResponse"
  using assms by (simp add: handler0_def Map_has_get)

lemma handler_hit:
  assumes "req_method req = ''POST''" "req_message req = Some msg" "msg \<noteq> []"
    and "Map_get c (cacheKey msg (req_messageHistory req)) = Some cached"
  shows "handler apiKey c req outcome = (Sent 200 (ResponseBody cached ''cache''), c)"
  using assms by (simp add: handler_def)

lemma handler0_hit:
  assumes "req_method req = ''POST''" "req_message req = Some msg" "msg \<noteq> []"
    and "Map_get c (cacheKey msg (req_messageHistory req)) = Some cached"
  shows "handler0 apiKey c req outcome = (Sent 200 (ResponseBody cached ''cache''), c)"
  using assms by (simp add: handler0_def)

lemma on_reply_unsafe:
  "\<not> isSafeResponse botResponse \<Longrightarrow>
     on_reply c key botResponse =
       (Sent 200 (ResponseBody safeResponse ''fallback''), Map_set c key safeResponse)"
  by (simp add: on_reply_def)

lemma on_reply_safe:
  "isSafeResponse botResponse \<Longrightarrow>
     fst (on_reply c key botResponse) = Sent 200 (ResponseBody botResponse ''api'')"
  by (simp add: on_reply_def Let_def)

lemma evict_keeps_new:
  assumes "\<not> Map_has c key"
  shows "Map_get (if Map_size (Map_set c key v) > 100 then Map_delete_first (Map_set c key v)
                  else Map_set c key v) key = Some v"
proof -
  from assms have fresh: "key \<notin> fst ` set c"
    by (simp add: Map_has_def map_of_eq_None_iff)
  then have c1: "AList.update key v c = c @ [(key, v)]" by (rule update_fresh)
  have got: "map_of (AList.update key v c) key = Some v" by (simp add: update_conv')
  show ?thesis
  proof (cases c)
    case Nil
    then show ?thesis by (simp add: Map_set_def Map_size_def Map_get_def)
  next
    case (Cons p c')
    obtain k0 v0 where p: "p = (k0, v0)" by (cases p)
    with Cons fresh have ne: "k0 \<noteq> key" by auto
    have "map_of (AList.delete k0 (AList.update key v c)) key = Some v"
      using ne got by (simp add: delete_conv')
    then have "map_of (Map_delete_first (AList.update key v c)) key = Some v"
      using c1 Cons p by (simp add: Map_delete_first_def Map_delete_def)
    with got show ?thesis by (simp add: Map_set_def Map_get_def)
  qed
qed

lemma on_reply_result:
  assumes "\<not> Map_has c key" and "on_reply c key botResponse = (result, c')"
  shows "\<exists>sent source. result = Sent 200 (ResponseBody sent source) \<and> Map_get c' key = Some sent"
proof (cases "isSafeResponse botResponse")
  case True
  with assms(2) have "result = Sent 200 (ResponseBody botResponse ''api'')"
    and "c' = (if Map_size (Map_set c key botResponse) > 100
               then Map_delete_first (Map_set c key botResponse) else Map_set c key botResponse)"
    by (auto simp: on_reply_def Let_def)
  with evict_keeps_new [OF assms(1), of botResponse] show ?thesis by simp
next
  case False
  with assms(2) have "result = Sent 200 (ResponseBody safeResponse ''fallback'')"
    and "c' = Map_set c key safeResponse"
    by (auto simp: on_reply_def)
  then show ?thesis by (simp add: Map_get_def Map_set_def update_conv')
qed

text \<open>
  C6. On a request that reaches the completion service, a reply that some blocked
  pattern matches is answered with the redirect sentence and source \<open>fallback\<close>, and
  the sentence is stored under the key of the request; a reply that passes the filter
  is sent as it is with source \<open>api\<close>; and a reply in which no other blocked word
  occurs and every occurrence of \<open>sex\<close> begins \<open>sexual abuse\<close> passes the filter.
\<close>

theorem output_filter:
  assumes "req_method req = ''POST''" "req_message req = Some msg" "msg \<noteq> []"
    and "\<not> missingKey apiKey" "\<not> Map_has c (cacheKey msg (req_messageHistory req))"
  shows "(list_ex (\<lambda>pattern. pattern botResponse) unsafePatterns \<longrightarrow>
            handler apiKey c req (Replied botResponse) =
              (Sent 200 (ResponseBody safeResponse ''fallback''),
               Map_set c (cacheKey msg (req_messageHistory req)) safeResponse)
            \<and> Map_get (snd (handler apiKey c req (Replied botResponse)))
                 (cacheKey msg (req_messageHistory req)) = Some safeResponse)
       \<and> (isSafeResponse botResponse \<longrightarrow>
            fst (handler apiKey c req (Replied botResponse)) =
              Sent 200 (ResponseBody botResponse ''api''))
       \<and> ((\<forall>w \<in> set blocked_words. \<not> (\<exists>u v. toLowerCase botResponse = u @ w @ v)) \<and>
           (\<forall>before after. toLowerCase botResponse = before @ ''sex'' @ after \<longrightarrow>
              (\<exists>rest. after = ''ual abuse'' @ rest))
           \<longrightarrow> isSafeResponse botResponse)"
proof (intro conjI impI)
  assume "list_ex (\<lambda>pattern. pattern botResponse) unsafePatterns"
  then have unsafe: "\<not> isSafeResponse botResponse" by (simp add: isSafeResponse_def)
  then show r: "handler apiKey c req (Replied botResponse) =
              (Sent 200 (ResponseBody safeResponse ''fallback''),
               Map_set c (cacheKey msg (req_messageHistory req)) safeResponse)"
    by (simp add: handler_replied [OF assms] on_reply_unsafe)
  show "Map_get (snd (handler apiKey c req (Replied botResponse)))
                 (cacheKey msg (req_messageHistory req)) = Some safeResponse"
    by (simp add: r Map_get_def Map_set_def update_conv')
next
  assume "isSafeResponse botResponse"
  then show "fst (handler apiKey c req (Replied botResponse)) =
              Sent 200 (ResponseBody botResponse ''api'')"
    by (simp add: handler_replied [OF assms] on_reply_safe)
next
  assume "(\<forall>w \<in> set blocked_words. \<not> (\<exists>u v. toLowerCase botResponse = u @ w @ v)) \<and>
           (\<forall>before after. toLowerCase botResponse = before @ ''sex'' @ after \<longrightarrow>
              (\<exists>rest. after = ''ual abuse'' @ rest))"
  then show "isSafeResponse botResponse" by (simp add: carve_out_safe)
qed

lemma dec_0: "dec 0 = ''0''"
  by (simp add: dec.simps digit_def)

lemma key_present: "\<not> missingKey (Some ''sk-test'')"
  by (simp add: missingKey_def isWhiteSpace_def)

lemma post_frage_key: "cacheKey ''Was ist das?'' (req_messageHistory post_frage) = ''Was ist das?:0''"
  by (simp add: cacheKey_def post_frage_def dec_0)

theorem output_filter_witness:
  "req_method post_frage = ''POST'' \<and> req_message post_frage = Some ''Was ist das?''
   \<and> \<not> missingKey (Some ''sk-test'')
   \<and> \<not> Map_has [] (cacheKey ''Was ist das?'' (req_messageHistory post_frage))
   \<and> list_ex (\<lambda>pattern. pattern ''Das ist explicit'') unsafePatterns
   \<and> handler (Some ''sk-test'') [] post_frage (Replied ''Das ist explicit'') =
       (Sent 200 (ResponseBody safeResponse ''fallback''), [(''Was ist das?:0'', safeResponse)])
   \<and> occurrences_followed ''sex'' ''ual abuse'' (toLowerCase carve_text)
   \<and> list_all (\<lambda>w. \<not> includes_str (toLowerCase carve_text) w) blocked_words
   \<and> isSafeResponse carve_text
   \<and> fst (handler (Some ''sk-test'') [] post_frage (Replied carve_text)) =
       Sent 200 (ResponseBody carve_text ''api'')"
proof -
  have m: "req_method post_frage = ''POST''" and q: "req_message post_frage = Some ''Was ist das?''"
    by (simp_all add: post_frage_def)
  have ne: "''Was ist das?'' \<noteq> []" by simp
  have miss: "\<not> Map_has [] (cacheKey ''Was ist das?'' (req_messageHistory post_frage))"
    by (simp add: Map_has_def)
  have bad: "list_ex (\<lambda>pattern. pattern ''Das ist explicit'') unsafePatterns"
    by (simp add: unsafePatterns_def test_sex_def test_any_def text_defs)
  have lower: "toLowerCase carve_text = ''sexual abuse is never your fault.''"
    by (simp add: carve_text_def text_defs)
  have occ: "occurrences_followed ''sex'' ''ual abuse'' (toLowerCase carve_text)"
    by (simp add: lower)
  have words: "list_all (\<lambda>w. \<not> includes_str (toLowerCase carve_text) w) blocked_words"
    by (simp add: lower blocked_words_def ue_def)
  note inst_bad = output_filter [OF m q ne key_present miss, of "''Das ist explicit''"]
  note inst_ok = output_filter [OF m q ne key_present miss, of carve_text]
  from inst_bad bad
  have fb: "handler (Some ''sk-test'') [] post_frage (Replied ''Das ist explicit'') =
       (Sent 200 (ResponseBody safeResponse ''fallback''), [(''Was ist das?:0'', safeResponse)])"
    by (simp add: post_frage_key Map_set_def)
  have w: "\<forall>w \<in> set blocked_words. \<not> (\<exists>u v. toLowerCase carve_text = u @ w @ v)"
    using words by (simp add: list_all_iff includes_str_iff)
  have o: "\<forall>before after. toLowerCase carve_text = before @ ''sex'' @ after \<longrightarrow>
              (\<exists>rest. after = ''ual abuse'' @ rest)"
    using occ by (simp add: occurrences_followed_iff)
  from inst_ok w o have safe: "isSafeResponse carve_text" by blast
  with inst_ok have api: "fst (handler (Some ''sk-test'') [] post_frage (Replied carve_text)) =
       Sent 200 (ResponseBody carve_text ''api'')" by blast
  from m q key_present miss bad fb occ words safe api show ?thesis by blast
qed

lemma cacheKey_message: "cacheKey msg' h = cacheKey msg h \<Longrightarrow> msg' = msg"
  by (simp add: cacheKey_def)

text \<open>
  C10. The route keeps a cache of its own under the key made of the raw message, a
  colon and the length of the history: messages that differ, if only in letter case,
  have different keys, and neither the length nor the content of the message is
  examined. Once a request that reached the completion service has been answered, a
  second request with the same message and a history of the same length is answered
  from the cache with source \<open>cache\<close>, whatever the message says.
\<close>

theorem route_cache_replay:
  assumes post: "req_method req = ''POST''" "req_method req' = ''POST''"
    and msg: "req_message req = Some msg" "req_message req' = Some msg" "msg \<noteq> []"
    and len: "(case req_messageHistory req' of Some h \<Rightarrow> length h | None \<Rightarrow> 0) =
              (case req_messageHistory req of Some h \<Rightarrow> length h | None \<Rightarrow> 0)"
    and key: "\<not> missingKey apiKey"
    and first: "handler apiKey c req (Replied botResponse) = (result, c')"
  shows "(\<exists>sent source. result = Sent 200 (ResponseBody sent source) \<and>
            handler apiKey' c' req' outcome' = (Sent 200 (ResponseBody sent ''cache''), c'))
       \<and> cacheKey msg (req_messageHistory req) =
            msg @ '':'' @ dec (case req_messageHistory req of Some h \<Rightarrow> length h | None \<Rightarrow> 0)
       \<and> (\<forall>other. cacheKey other (req_messageHistory req) = cacheKey msg (req_messageHistory req)
            \<longrightarrow> other = msg)"
proof (intro conjI)
  let ?key = "cacheKey msg (req_messageHistory req)"
  from len have same: "cacheKey msg (req_messageHistory req') = ?key"
    by (simp add: cacheKey_def)
  have "\<exists>sent source. result = Sent 200 (ResponseBody sent source) \<and> Map_get c' ?key = Some sent"
  proof (cases "Map_has c ?key")
    case True
    then obtain cached where hit: "Map_get c ?key = Some cached"
      by (auto simp: Map_has_get)
    from handler_hit [OF post(1) msg(1) msg(3) hit] first
    have "result = Sent 200 (ResponseBody cached ''cache'')" "c' = c" by simp_all
    with hit show ?thesis by simp
  next
    case False
    from handler_replied [OF post(1) msg(1) msg(3) key False] first
    have "on_reply c ?key botResponse = (result, c')" by simp
    with False show ?thesis by (rule on_reply_result)
  qed
  then obtain sent source where res: "result = Sent 200 (ResponseBody sent source)"
    and got: "Map_get c' (cacheKey msg (req_messageHistory req')) = Some sent"
    using same by auto
  from handler_hit [OF post(2) msg(2) msg(3) got]
  have "handler apiKey' c' req' outcome' = (Sent 200 (ResponseBody sent ''cache''), c')" .
  with res show "\<exists>sent source. result = Sent 200 (ResponseBody sent source) \<and>
            handler apiKey' c' req' outcome' = (Sent 200 (ResponseBody sent ''cache''), c')"
    by blast
next
  show "cacheKey msg (req_messageHistory req) =
            msg @ '':'' @ dec (case req_messageHistory req of Some h \<Rightarrow> length h | None \<Rightarrow> 0)"
    by (simp add: cacheKey_def)
next
  show "\<forall>other. cacheKey other (req_messageHistory req) = cacheKey msg (req_messageHistory req)
            \<longrightarrow> other = msg"
    using cacheKey_message by blast
qed

lemma angst_safe: "isSafeResponse ''Magst du mir mehr sagen?''"
  by (simp add: isSafeResponse_def unsafePatterns_def test_sex_def test_any_def text_defs)

lemma post_angst_first:
  "handler (Some ''sk-test'') [] post_angst (Replied ''Magst du mir mehr sagen?'') =
     (Sent 200 (ResponseBody ''Magst du mir mehr sagen?'' ''api''),
      [(''Ich habe Angst:0'', ''Magst du mir mehr sagen?'')])"
proof -
  have "handler (Some ''sk-test'') [] post_angst (Replied ''Magst du mir mehr sagen?'') =
      on_reply [] (cacheKey ''Ich habe Angst'' (req_messageHistory post_angst)) ''Magst du mir mehr sagen?''"
    by (rule handler_replied) (simp_all add: post_angst_def key_present Map_has_def)
  then show ?thesis
    by (simp add: on_reply_def angst_safe cacheKey_def post_angst_def dec_0 Map_set_def Map_size_def)
qed

theorem route_cache_replay_witness:
  "containsConcerningContent ''Ich habe Angst''
   \<and> req_method post_angst = ''POST'' \<and> req_method post_angst_again = ''POST''
   \<and> req_message post_angst = Some ''Ich habe Angst''
   \<and> req_message post_angst_again = Some ''Ich habe Angst''
   \<and> \<not> missingKey (Some ''sk-test'')
   \<and> handler (Some ''sk-test'') [] post_angst (Replied ''Magst du mir mehr sagen?'') =
       (Sent 200 (ResponseBody ''Magst du mir mehr sagen?'' ''api''),
        [(''Ich habe Angst:0'', ''Magst du mir mehr sagen?'')])
   \<and> handler None [(''Ich habe Angst:0'', ''Magst du mir mehr sagen?'')] post_angst_again
        (Failed abort_error) =
       (Sent 200 (ResponseBody ''Magst du mir mehr sagen?'' ''cache''),
        [(''Ich habe Angst:0'', ''Magst du mir mehr sagen?'')])
   \<and> cacheKey ''ich habe angst'' (req_messageHistory post_angst) \<noteq>
       cacheKey ''Ich habe Angst'' (req_messageHistory post_angst)"
proof -
  have cc: "containsConcerningContent ''Ich habe Angst''" by (simp add: scan_defs)
  have p: "req_method post_angst = ''POST''" and p': "req_method post_angst_again = ''POST''"
    and m: "req_message post_angst = Some ''Ich habe Angst''"
    and m': "req_message post_angst_again = Some ''Ich habe Angst''"
    by (simp_all add: post_angst_def post_angst_again_def)
  have ne: "''Ich habe Angst'' \<noteq> []" by simp
  have len: "(case req_messageHistory post_angst_again of Some h \<Rightarrow> length h | None \<Rightarrow> 0) =
              (case req_messageHistory post_angst of Some h \<Rightarrow> length h | None \<Rightarrow> 0)"
    by (simp add: post_angst_def post_angst_again_def)
  note inst = route_cache_replay [OF p p' m m' ne len key_present post_angst_first,
      of None "Failed abort_error"]
  from inst have replay:
    "handler None [(''Ich habe Angst:0'', ''Magst du mir mehr sagen?'')] post_angst_again
        (Failed abort_error) =
       (Sent 200 (ResponseBody ''Magst du mir mehr sagen?'' ''cache''),
        [(''Ich habe Angst:0'', ''Magst du mir mehr sagen?'')])"
    by simp
  from inst have "cacheKey ''ich habe angst'' (req_messageHistory post_angst) \<noteq>
       cacheKey ''Ich habe Angst'' (req_messageHistory post_angst)"
    by auto
  with cc p p' m m' key_present post_angst_first replay show ?thesis by blast
qed

lemma handler_early:
  assumes "req_method req \<noteq> ''POST'' \<or> req_message req = None \<or> req_message req = Some []"
  shows "handler apiKey c req outcome = handler0 apiKey c req outcome"
  using assms by (auto simp: handler_def handler0_def split: option.splits)

lemma inner_catch_abort:
  assumes "err_name e = ''AbortError'' \<or> err_code e = Some ''ECONNABORTED''"
  shows "inner_catch rethrow e = Sent 200 (ResponseBody route_timeout_reply ''timeout'')"
  using assms by (auto simp: inner_catch_def)

lemma handleApiRequest_no_response:
  "err_response e = None \<Longrightarrow> handleApiRequest (Failed e) = Failed e"
  by (simp add: handleApiRequest_def)

lemma handler_abort:
  assumes "req_method req = ''POST''" "req_message req = Some msg" "msg \<noteq> []"
    and "\<not> missingKey apiKey" "\<not> Map_has c (cacheKey msg (req_messageHistory req))"
    and "err_name e = ''AbortError'' \<or> err_code e = Some ''ECONNABORTED''"
    and "err_response e = None"
  shows "handler apiKey c req (Failed e) =
           (Sent 200 (ResponseBody route_timeout_reply ''timeout''), c)"
  using assms
  by (simp add: handler_def handleApiRequest_no_response inner_catch_abort Map_has_get)

lemma handler0_abort:
  assumes "req_method req = ''POST''" "req_message req = Some msg" "msg \<noteq> []"
    and "\<not> missingKey apiKey" "\<not> Map_has c (cacheKey msg (req_messageHistory req))"
    and "err_name e = ''AbortError'' \<or> err_code e = Some ''ECONNABORTED''"
  shows "handler0 apiKey c req (Failed e) =
           (Sent 200 (ResponseBody route_timeout_reply ''timeout''), c)"
  using assms
  by (simp add: handler0_def inner_catch_abort Map_has_get)

lemma inner_catch0_sent:
  assumes "\<not> (err_name e = ''AbortError'' \<or> err_code e = Some ''ECONNABORTED'')"
  shows "\<exists>sent source. inner_catch outer_catch0 e = Sent 200 (ResponseBody sent source) \<and>
           (source = ''error'' \<or> source = ''auth_error'')"
  using assms by (auto simp: inner_catch_def outer_catch0_def Let_def)

lemma handler0_missing_key:
  assumes "req_method req = ''POST''" "req_message req = Some msg" "msg \<noteq> []"
    and "missingKey apiKey" "\<not> Map_has c (cacheKey msg (req_messageHistory req))"
  shows "handler0 apiKey c req outcome = (Sent 200 (ResponseBody apikey_reply ''error''), c)"
proof -
  have "inner_catch outer_catch0 (Error ''Missing API key'') =
      Sent 200 (ResponseBody apikey_reply ''error'')"
    by (simp add: inner_catch_def outer_catch0_def Error_def)
  with assms show ?thesis by (simp add: handler0_def Map_has_get)
qed

lemma handler_missing_key:
  assumes "req_method req = ''POST''" "req_message req = Some msg" "msg \<noteq> []"
    and "missingKey apiKey" "\<not> Map_has c (cacheKey msg (req_messageHistory req))"
  shows "handler apiKey c req outcome = (Threw ''timeoutId is not defined'', c)"
proof -
  have "inner_catch outer_catch (Error ''Missing API key'') = Threw ''timeoutId is not defined''"
    by (simp add: inner_catch_def outer_catch_def Error_def)
  with assms show ?thesis by (simp add: handler_def Map_has_get)
qed

text \<open>
  C9, as amended. The two versions of the handler give the same answer and leave the
  same cache on every request that is answered before an outer \<open>catch\<close> is reached:
  a method other than POST, a missing message, a cache hit, a reply of the completion
  service (safe or not), and an aborted call. On the other requests, a missing
  credential, a reply without text and a failure that is no abort, the unnamed version
  answers status 200 with source \<open>error\<close> or \<open>auth_error\<close> and leaves the cache as it
  is; the equivalence does not reach them.
\<close>

theorem handlers_agree:
  "(req_method req \<noteq> ''POST'' \<or> req_message req = None \<or> req_message req = Some [] \<or>
    (\<exists>msg. req_message req = Some msg \<and> Map_has c (cacheKey msg (req_messageHistory req))) \<or>
    (\<not> missingKey apiKey \<and>
       ((\<exists>botResponse. outcome = Replied botResponse) \<or>
        (\<exists>e. outcome = Failed e \<and>
             (err_name e = ''AbortError'' \<or> err_code e = Some ''ECONNABORTED'') \<and>
             err_response e = None)))
    \<longrightarrow> handler apiKey c req outcome = handler0 apiKey c req outcome)
   \<and> (req_method req = ''POST'' \<and> req_message req = Some msg \<and> msg \<noteq> [] \<and>
       \<not> Map_has c (cacheKey msg (req_messageHistory req)) \<and>
       (missingKey apiKey \<or> (\<exists>m. outcome = Malformed m) \<or>
        (\<exists>e. outcome = Failed e \<and>
             \<not> (err_name e = ''AbortError'' \<or> err_code e = Some ''ECONNABORTED'')))
    \<longrightarrow> (\<exists>sent source. handler0 apiKey c req outcome = (Sent 200 (ResponseBody sent source), c) \<and>
           (source = ''error'' \<or> source = ''auth_error'')))"
proof (intro conjI impI)
  assume a: "req_method req \<noteq> ''POST'' \<or> req_message req = None \<or> req_message req = Some [] \<or>
    (\<exists>msg. req_message req = Some msg \<and> Map_has c (cacheKey msg (req_messageHistory req))) \<or>
    (\<not> missingKey apiKey \<and>
       ((\<exists>botResponse. outcome = Replied botResponse) \<or>
        (\<exists>e. outcome = Failed e \<and>
             (err_name e = ''AbortError'' \<or> err_code e = Some ''ECONNABORTED'') \<and>
             err_response e = None)))"
  show "handler apiKey c req outcome = handler0 apiKey c req outcome"
  proof (cases "req_method req \<noteq> ''POST'' \<or> req_message req = None \<or> req_message req = Some []")
    case True
    then show ?thesis by (rule handler_early)
  next
    case False
    then obtain msg where req: "req_method req = ''POST''" "req_message req = Some msg" "msg \<noteq> []"
      by auto
    show ?thesis
    proof (cases "Map_has c (cacheKey msg (req_messageHistory req))")
      case True
      then obtain cached where "Map_get c (cacheKey msg (req_messageHistory req)) = Some cached"
        by (auto simp: Map_has_get)
      then show ?thesis
        using handler_hit [OF req] handler0_hit [OF req] by simp
    next
      case miss: False
      with a False req have key: "\<not> missingKey apiKey"
        and "(\<exists>botResponse. outcome = Replied botResponse) \<or>
        (\<exists>e. outcome = Failed e \<and>
             (err_name e = ''AbortError'' \<or> err_code e = Some ''ECONNABORTED'') \<and>
             err_response e = None)"
        by auto
      then consider botResponse where "outcome = Replied botResponse"
        | e where "outcome = Failed e"
            "err_name e = ''AbortError'' \<or> err_code e = Some ''ECONNABORTED''"
            "err_response e = None"
        by blast
      then show ?thesis
      proof cases
        case 1
        then show ?thesis
          using handler_replied [OF req key miss] handler0_replied [OF req key miss] by simp
      next
        case 2
        then show ?thesis
          using handler_abort [OF req key miss] handler0_abort [OF req key miss] by simp
      qed
    qed
  qed
next
  assume b: "req_method req = ''POST'' \<and> req_message req = Some msg \<and> msg \<noteq> [] \<and>
       \<not> Map_has c (cacheKey msg (req_messageHistory req)) \<and>
       (missingKey apiKey \<or> (\<exists>m. outcome = Malformed m) \<or>
        (\<exists>e. outcome = Failed e \<and>
             \<not> (err_name e = ''AbortError'' \<or> err_code e = Some ''ECONNABORTED'')))"
  then have req: "req_method req = ''POST''" "req_message req = Some msg" "msg \<noteq> []"
    and miss: "\<not> Map_has c (cacheKey msg (req_messageHistory req))" by simp_all
  show "\<exists>sent source. handler0 apiKey c req outcome = (Sent 200 (ResponseBody sent source), c) \<and>
           (source = ''error'' \<or> source = ''auth_error'')"
  proof (cases "missingKey apiKey")
    case True
    from handler0_missing_key [OF req True miss] show ?thesis by simp
  next
    case False
    with b consider m where "outcome = Malformed m"
      | e where "outcome = Failed e"
          "\<not> (err_name e = ''AbortError'' \<or> err_code e = Some ''ECONNABORTED'')"
      by blast
    then show ?thesis
    proof cases
      case 1
      have "\<not> (err_name (TypeError m) = ''AbortError'' \<or> err_code (TypeError m) = Some ''ECONNABORTED'')"
        by (simp add: TypeError_def)
      from inner_catch0_sent [OF this] 1 req miss False show ?thesis
        by (simp add: handler0_def Map_has_get)
    next
      case 2
      from inner_catch0_sent [OF 2(2)] 2(1) req miss False show ?thesis
        by (simp add: handler0_def Map_has_get)
    qed
  qed
qed

theorem handlers_agree_witness:
  "\<not> missingKey (Some ''sk-test'')
   \<and> err_name abort_error = ''AbortError'' \<and> err_response abort_error = None
   \<and> handler (Some ''sk-test'') [] post_frage (Failed abort_error) =
       handler0 (Some ''sk-test'') [] post_frage (Failed abort_error)
   \<and> handler0 (Some ''sk-test'') [] post_frage (Failed abort_error) =
       (Sent 200 (ResponseBody route_timeout_reply ''timeout''), [])
   \<and> handler (Some ''sk-test'') [] post_frage (Replied carve_text) =
       handler0 (Some ''sk-test'') [] post_frage (Replied carve_text)
   \<and> req_method post_frage = ''POST'' \<and> req_message post_frage = Some ''Was ist das?''
   \<and> \<not> Map_has [] (cacheKey ''Was ist das?'' (req_messageHistory post_frage))
   \<and> missingKey None
   \<and> (\<exists>sent source. handler0 None [] post_frage (Replied ''Hallo'') =
          (Sent 200 (ResponseBody sent source), []) \<and>
          (source = ''error'' \<or> source = ''auth_error''))"
proof -
  have m: "req_method post_frage = ''POST''" and q: "req_message post_frage = Some ''Was ist das?''"
    by (simp_all add: post_frage_def)
  have ne: "''Was ist das?'' \<noteq> []" by simp
  have miss: "\<not> Map_has [] (cacheKey ''Was ist das?'' (req_messageHistory post_frage))"
    by (simp add: Map_has_def)
  have k: "missingKey None" by (simp add: missingKey_def)
  have ab: "err_name abort_error = ''AbortError''" and nr: "err_response abort_error = None"
    by (simp_all add: abort_error_def)
  from handlers_agree [where req = post_frage and c = "[]" and apiKey = "Some ''sk-test''"
      and outcome = "Failed abort_error"] key_present ab nr
  have e1: "handler (Some ''sk-test'') [] post_frage (Failed abort_error) =
       handler0 (Some ''sk-test'') [] post_frage (Failed abort_error)"
    by blast
  have t: "handler0 (Some ''sk-test'') [] post_frage (Failed abort_error) =
       (Sent 200 (ResponseBody route_timeout_reply ''timeout''), [])"
    using ab by (simp add: handler0_abort [OF m q ne key_present miss])
  from handlers_agree [where req = post_frage and c = "[]" and apiKey = "Some ''sk-test''"
      and outcome = "Replied carve_text"] key_present
  have e2: "handler (Some ''sk-test'') [] post_frage (Replied carve_text) =
       handler0 (Some ''sk-test'') [] post_frage (Replied carve_text)"
    by blast
  from handlers_agree [where req = post_frage and c = "[]" and apiKey = None
      and outcome = "Replied ''Hallo''" and msg = "''Was ist das?''"] m q ne miss k
  have g: "\<exists>sent source. handler0 None [] post_frage (Replied ''Hallo'') =
          (Sent 200 (ResponseBody sent source), []) \<and>
          (source = ''error'' \<or> source = ''auth_error'')"
    by blast
  from key_present ab nr e1 t e2 m q miss k g show ?thesis by blast
qed

text \<open>
  The generic error paths do not agree: without a credential the unnamed version
  answers status 200 with source \<open>error\<close>, and the version of \<open>pages/api/chat.js\<close>
  does not.
\<close>

theorem handlers_agree_counterexample:
  "handler0 None [] post_frage (Replied ''Hallo'') =
     (Sent 200 (ResponseBody apikey_reply ''error''), [])
   \<and> handler None [] post_frage (Replied ''Hallo'') \<noteq> handler0 None [] post_frage (Replied ''Hallo'')"
proof -
  have m: "req_method post_frage = ''POST''" and q: "req_message post_frage = Some ''Was ist das?''"
    by (simp_all add: post_frage_def)
  have ne: "''Was ist das?'' \<noteq> []" by simp
  have miss: "\<not> Map_has [] (cacheKey ''Was ist das?'' (req_messageHistory post_frage))"
    by (simp add: Map_has_def)
  have k: "missingKey None" by (simp add: missingKey_def)
  from handler0_missing_key [OF m q ne k miss, of "Replied ''Hallo''"]
       handler_missing_key [OF m q ne k miss, of "Replied ''Hallo''"]
  show ?thesis by simp
qed

end
